theory Spec2Isabelle
  imports Main "HOL-Library.Word"
begin

unbundle bit_operations_syntax

text \<open>
  The bit-level writer and reader of tontools-js: the class \<^verbatim>\<open>Builder\<close>
  (\<^verbatim>\<open>src/unnamed/part_000\<close>, the repository's \<^verbatim>\<open>boc/builder.ts\<close>), the class \<^verbatim>\<open>Slice\<close>
  (\<^verbatim>\<open>src/src/boc/slice.ts\<close>) and \<^verbatim>\<open>MsgTemplate.MessageX\<close>
  (\<^verbatim>\<open>src/src/contract/msg-template.ts\<close>). Sizes, lengths and values are integers
  (\<^verbatim>\<open>number\<close> arguments that hold integers, and bigints).
\<close>

section \<open>Data model\<close>

text \<open>
  \<^verbatim>\<open>type Bit = 0 | 1\<close>: \<open>True\<close> is the bit 1, \<open>False\<close> the bit 0.
\<close>

type_synonym Bit = bool

text \<open>
  Every \<^verbatim>\<open>throw new Error(...)\<close> of the sources, named after the error kinds of the
  specification. \<open>InvalidArrayLength\<close> is the engine's own exception for
  \<^verbatim>\<open>Array(n)\<close> with a negative \<open>n\<close>.
\<close>

datatype error =
    BitOverflow
  | RefOverflow
  | InvalidBit
  | RangeError
  | NegativeAmount
  | InvalidAddressFlag
  | MalformedPadding
  | InvalidArrayLength

text \<open>Modelled from the spec: the node type \<^verbatim>\<open>Cell\<close> (\<^verbatim>\<open>./cell\<close>) is not among the sources.
  Its constructor takes the bits, the references and the "is-exotic" flag; its getters give
  them back.
\<close>

datatype Cell = Cell (cell_bits: "Bit list") (cell_refs: "Cell list") (cell_exotic: bool)

text \<open>Modelled from the spec: the value type \<^verbatim>\<open>Address\<close> (\<^verbatim>\<open>../address\<close>) is not among the
  sources. The Builder reads \<^verbatim>\<open>address.workchain\<close> (a number) and \<^verbatim>\<open>address.hash\<close>
  (a byte array); \<^verbatim>\<open>null\<close> and \<^verbatim>\<open>Address.NONE\<close> are \<open>None\<close> of \<open>Address option\<close>.
\<close>

record Address =
  workchain :: int
  hash :: "8 word list"

text \<open>
  The specification's Address: the workchain is an 8-bit signed integer and the hash has
  256 bits (32 bytes).
\<close>

definition valid_address :: "Address \<Rightarrow> bool" where
  "valid_address a = (- 128 \<le> workchain a \<and> workchain a < 128 \<and> length (hash a) = 32)"

text \<open>Modelled from the spec: the value type \<^verbatim>\<open>Coins\<close> (\<^verbatim>\<open>../coins\<close>) is not among the
  sources. It is an arbitrary-precision integer amount, here the amount in nano units
  that \<^verbatim>\<open>toNano()\<close> prints.
\<close>

type_synonym Coins = int

text \<open>Modelled from the spec: the methods of \<^verbatim>\<open>Coins\<close> that \<^verbatim>\<open>storeCoins\<close> calls.\<close>

definition isNegative :: "Coins \<Rightarrow> bool" where
  "isNegative coins = (coins < 0)"

definition isZero :: "Coins \<Rightarrow> bool" where
  "isZero coins = (coins = 0)"

definition toNano :: "Coins \<Rightarrow> int" where
  "toNano coins = coins"

text \<open>The two classes of the sources: their private fields.\<close>

record Builder =
  builder_size :: int
  builder_bits :: "Bit list"
  builder_refs :: "Cell list"

record Slice =
  slice_bits :: "Bit list"
  slice_refs :: "Cell list"

text \<open>
  A Builder method either returns (\<open>Inr\<close>, with the Builder as the call left it) or
  throws (\<open>Inl\<close>, with the error and the Builder as it was at the throw).
\<close>

type_synonym outcome = "error \<times> Builder + Builder"

text \<open>Statements run in order; a throw ends the sequence.\<close>

fun seqB :: "(Builder \<Rightarrow> outcome) list \<Rightarrow> Builder \<Rightarrow> outcome" where
  "seqB [] b = Inr b"
| "seqB (f # fs) b = (case f b of Inl e \<Rightarrow> Inl e | Inr b' \<Rightarrow> seqB fs b')"

text \<open>\<^verbatim>\<open>xs.forEach(f)\<close> where \<open>f\<close> is a Builder method.\<close>

fun forEachB :: "('a \<Rightarrow> Builder \<Rightarrow> outcome) \<Rightarrow> 'a list \<Rightarrow> Builder \<Rightarrow> outcome" where
  "forEachB f [] b = Inr b"
| "forEachB f (x # xs) b = (case f x b of Inl e \<Rightarrow> Inl e | Inr b' \<Rightarrow> forEachB f xs b')"

section \<open>Builder\<close>

text \<open>
  The constructor (lines 19-23; its default size is 1023), \<^verbatim>\<open>remainder\<close> (lines 93-95) and
  the two checks (lines 25-35).
\<close>

definition new_Builder :: "int \<Rightarrow> Builder" where
  "new_Builder sz = \<lparr>builder_size = sz, builder_bits = [], builder_refs = []\<rparr>"

definition remainder :: "Builder \<Rightarrow> int" where
  "remainder b = builder_size b - int (length (builder_bits b))"

definition checkBitsOverflow :: "int \<Rightarrow> Builder \<Rightarrow> outcome" where
  "checkBitsOverflow sz b = (if sz > remainder b then Inl (BitOverflow, b) else Inr b)"

definition checkRefsOverflow :: "int \<Rightarrow> Builder \<Rightarrow> outcome" where
  "checkRefsOverflow sz b =
     (if sz > 4 - int (length (builder_refs b)) then Inl (RefOverflow, b) else Inr b)"

text \<open>
  \<^verbatim>\<open>storeBit (bit: Bit | number)\<close> (lines 135-144): the argument is a number.
  \<^verbatim>\<open>storeBits\<close> (lines 152-158) checks the whole length, then stores bit by bit.
\<close>

definition storeBit :: "int \<Rightarrow> Builder \<Rightarrow> outcome" where
  "storeBit x b =
     (if x \<noteq> 0 \<and> x \<noteq> 1 then Inl (InvalidBit, b)
      else seqB [checkBitsOverflow 1,
                 \<lambda>b. Inr (b\<lparr>builder_bits := builder_bits b @ [x = 1]\<rparr>)] b)"

definition storeBits :: "Bit list \<Rightarrow> Builder \<Rightarrow> outcome" where
  "storeBits bs b =
     seqB [checkBitsOverflow (int (length bs)),
           forEachB (\<lambda>x. storeBit (if x then 1 else 0)) bs] b"

text \<open>\<^verbatim>\<open>storeRef\<close> (lines 122-127) and \<^verbatim>\<open>storeSlice\<close> (lines 103-114).\<close>

definition storeRef :: "Cell \<Rightarrow> Builder \<Rightarrow> outcome" where
  "storeRef ref b =
     seqB [checkRefsOverflow 1,
           \<lambda>b. Inr (b\<lparr>builder_refs := builder_refs b @ [ref]\<rparr>)] b"

definition storeSlice :: "Slice \<Rightarrow> Builder \<Rightarrow> outcome" where
  "storeSlice sl b =
     (let bs = slice_bits sl; rs = slice_refs sl
      in seqB [checkBitsOverflow (int (length bs)),
               checkRefsOverflow (int (length rs)),
               storeBits bs,
               forEachB storeRef rs] b)"

text \<open>
  \<^verbatim>\<open>storeNumber\<close> (lines 37-45):
  \<^verbatim>\<open>[ ...Array(length) ].map((_el, i) => Number(((value >> BigInt(i)) & 1n) === 1n)).reverse()\<close>
  on a bigint: the shift is arithmetic. \<^verbatim>\<open>Array(length)\<close> throws for a negative length
  (which neither caller lets through).
\<close>

definition number_bits :: "int \<Rightarrow> nat \<Rightarrow> Bit list" where
  "number_bits v len = rev (map (\<lambda>i. (drop_bit i v) AND 1 = 1) [0..<len])"

definition storeNumber :: "int \<Rightarrow> int \<Rightarrow> Builder \<Rightarrow> outcome" where
  "storeNumber v len b =
     (if len < 0 then Inl (InvalidArrayLength, b)
      else storeBits (number_bits v (nat len)) b)"

text \<open>
  \<^verbatim>\<open>storeInt\<close> (lines 167-178) and \<^verbatim>\<open>storeUint\<close> (lines 187-197).
  \<^verbatim>\<open>1n << k\<close> on bigints is a shift to the right when \<open>k\<close> is negative.
\<close>

definition bigint_shl1 :: "int \<Rightarrow> int" where
  "bigint_shl1 k = (if k < 0 then drop_bit (nat (- k)) 1 else push_bit (nat k) 1)"

definition storeInt :: "int \<Rightarrow> int \<Rightarrow> Builder \<Rightarrow> outcome" where
  "storeInt v len b =
     (let intBits = bigint_shl1 (len - 1)
      in if v < - intBits \<or> v \<ge> intBits then Inl (RangeError, b)
         else storeNumber v len b)"

definition storeUint :: "int \<Rightarrow> int \<Rightarrow> Builder \<Rightarrow> outcome" where
  "storeUint v len b =
     (if v < 0 \<or> v \<ge> bigint_shl1 len then Inl (RangeError, b)
      else storeNumber v len b)"

text \<open>\<^verbatim>\<open>storeBytes\<close> (lines 205-211), on the bytes \<^verbatim>\<open>Uint8Array.from(value)\<close> holds.\<close>

definition storeBytes :: "8 word list \<Rightarrow> Builder \<Rightarrow> outcome" where
  "storeBytes bytes b =
     seqB [checkBitsOverflow (int (length bytes) * 8),
           forEachB (\<lambda>byte. storeUint (uint byte) 8) bytes] b"

text \<open>
  \<^verbatim>\<open>storeString\<close> (lines 219-225). \<^verbatim>\<open>stringToBytes\<close> (\<^verbatim>\<open>../utils/helpers\<close>) is not
  among the sources: a parameter.
\<close>

definition storeString :: "('s \<Rightarrow> 8 word list) \<Rightarrow> 's \<Rightarrow> Builder \<Rightarrow> outcome" where
  "storeString stringToBytes v b = storeBytes (stringToBytes v) b"

text \<open>\<^verbatim>\<open>storeAddress\<close> (lines 233-250).\<close>

definition storeAddress :: "Address option \<Rightarrow> Builder \<Rightarrow> outcome" where
  "storeAddress address b =
     (case address of
        None \<Rightarrow> storeBits [False, False] b
      | Some a \<Rightarrow>
          (let anycast = 0; addressBitsSize = 2 + 1 + 8 + 256
           in seqB [checkBitsOverflow addressBitsSize,
                    storeBits [True, False],
                    storeUint anycast 1,
                    storeInt (workchain a) 8,
                    storeBytes (hash a)] b))"

text \<open>
  \<^verbatim>\<open>storeCoins\<close> (lines 258-279). \<^verbatim>\<open>BigInt(n).toString(16).length\<close> for a positive
  \<open>n\<close> is the number of its hex digits; \<^verbatim>\<open>Math.ceil(h / 2)\<close> is \<open>(h + 1) div 2\<close>.
\<close>

fun hex_length :: "nat \<Rightarrow> nat" where
  "hex_length n = (if n < 16 then 1 else Suc (hex_length (n div 16)))"

declare hex_length.simps [simp del]

definition storeCoins :: "Coins \<Rightarrow> Builder \<Rightarrow> outcome" where
  "storeCoins coins b =
     (if isNegative coins then Inl (NegativeAmount, b)
      else if isZero coins then storeUint 0 4 b
      else
        (let len = int ((hex_length (nat (toNano coins)) + 1) div 2);
             sz = len * 8;
             nano = toNano coins;
             coinsBitsSize = 4 + sz
         in seqB [checkBitsOverflow coinsBitsSize,
                  storeUint len 4,
                  storeUint nano sz] b))"

text \<open>\<^verbatim>\<open>clone\<close> (lines 286-292) and \<^verbatim>\<open>cell\<close> (lines 347-352).\<close>

definition clone :: "Builder \<Rightarrow> outcome" where
  "clone b = storeBits (builder_bits b) (new_Builder (builder_size b))"

definition cell :: "Builder \<Rightarrow> Cell" where
  "cell b = Cell (builder_bits b) (builder_refs b) False"

subsection \<open>The padding codec\<close>

text \<open>
  \<^verbatim>\<open>augmentBits\<close> (lines 302-311) and \<^verbatim>\<open>rollbackBits\<close> (lines 320-330).
  \<^verbatim>\<open>divider: 4 | 8\<close> is a type of two values.
\<close>

datatype Divider = Four | Eight

fun divider_value :: "Divider \<Rightarrow> nat" where
  "divider_value Four = 4"
| "divider_value Eight = 8"

definition augmentBits :: "Bit list \<Rightarrow> Divider \<Rightarrow> Bit list" where
  "augmentBits bs divider =
     (let d = divider_value divider;
          amount = d - (length bs mod d);
          overage = map (\<lambda>i. i = 0) [0..<amount]
      in if length overage \<noteq> 0 \<and> length overage \<noteq> d then bs @ overage else bs)"

text \<open>\<^verbatim>\<open>xs.indexOf(x)\<close>: the first index of \<open>x\<close>, or \<open>-1\<close>.\<close>

fun indexOf :: "'a list \<Rightarrow> 'a \<Rightarrow> int" where
  "indexOf [] x = - 1"
| "indexOf (y # ys) x =
     (if y = x then 0 else (let i = indexOf ys x in if i = - 1 then - 1 else i + 1))"

text \<open>
  \<^verbatim>\<open>bits.slice(-7)\<close> is the last seven elements (all of them when there are fewer);
  \<^verbatim>\<open>bits.splice(-(index + 1))\<close> removes the last \<open>index + 1\<close> elements in place.
\<close>

definition rollbackBits :: "Bit list \<Rightarrow> error + Bit list" where
  "rollbackBits bs =
     (let index = indexOf (rev (drop (length bs - 7) bs)) True
      in if index = - 1 then Inl MalformedPadding
         else Inr (take (length bs - nat (index + 1)) bs))"

section \<open>Numbers\<close>

text \<open>
  The Slice computes with \<^verbatim>\<open>number\<close>, a 64-bit float. Every value that arises is an
  integer, an infinity or NaN; \<open>Finite\<close> holds an integer that a float represents.
  The two zeros are one value (nothing here divides).
\<close>

datatype number = Finite int | PosInf | NegInf | NaN

fun bit_length :: "nat \<Rightarrow> nat" where
  "bit_length n = (if n = 0 then 0 else Suc (bit_length (n div 2)))"

declare bit_length.simps [simp del]

text \<open>
  The float nearest to an integer (ties to the even significand of 53 bits), an infinity
  from \<open>2 ^ 1024\<close> on.
\<close>

definition f64_round :: "int \<Rightarrow> number" where
  "f64_round x =
     (let n = nat \<bar>x\<bar>;
          r = (if n < 2 ^ 53 then n
               else (let s = bit_length n - 53;
                         q = n div 2 ^ s;
                         rm = n mod 2 ^ s;
                         h = 2 ^ (s - 1);
                         m = (if rm < h \<or> (rm = h \<and> even q) then q else q + 1)
                     in m * 2 ^ s))
      in if r \<ge> 2 ^ 1024 then (if x < 0 then NegInf else PosInf)
         else Finite (sgn x * int r))"

fun number_add :: "number \<Rightarrow> number \<Rightarrow> number" where
  "number_add (Finite a) (Finite b) = f64_round (a + b)"
| "number_add NaN y = NaN"
| "number_add x NaN = NaN"
| "number_add PosInf NegInf = NaN"
| "number_add NegInf PosInf = NaN"
| "number_add PosInf y = PosInf"
| "number_add x PosInf = PosInf"
| "number_add NegInf y = NegInf"
| "number_add x NegInf = NegInf"

fun number_neg :: "number \<Rightarrow> number" where
  "number_neg (Finite a) = Finite (- a)"
| "number_neg PosInf = NegInf"
| "number_neg NegInf = PosInf"
| "number_neg NaN = NaN"

definition number_sub :: "number \<Rightarrow> number \<Rightarrow> number" where
  "number_sub x y = number_add x (number_neg y)"

fun number_mul :: "number \<Rightarrow> number \<Rightarrow> number" where
  "number_mul (Finite a) (Finite b) = f64_round (a * b)"
| "number_mul NaN y = NaN"
| "number_mul x NaN = NaN"
| "number_mul (Finite a) y =
     (if a = 0 then NaN else if a > 0 then y else number_neg y)"
| "number_mul x (Finite b) =
     (if b = 0 then NaN else if b > 0 then x else number_neg x)"
| "number_mul PosInf y = y"
| "number_mul NegInf y = number_neg y"

text \<open>\<^verbatim>\<open>x >= y\<close>\<close>

fun number_ge :: "number \<Rightarrow> number \<Rightarrow> bool" where
  "number_ge (Finite a) (Finite b) = (a \<ge> b)"
| "number_ge NaN y = False"
| "number_ge x NaN = False"
| "number_ge PosInf y = True"
| "number_ge x NegInf = True"
| "number_ge x PosInf = False"
| "number_ge NegInf y = False"

text \<open>\<^verbatim>\<open>2 ** i\<close> for an index \<open>i\<close>: exact up to \<open>2 ^ 1023\<close>, then infinite.\<close>

definition number_pow2 :: "nat \<Rightarrow> number" where
  "number_pow2 i = (if i < 1024 then Finite (2 ^ i) else PosInf)"

text \<open>
  \<^verbatim>\<open>1 << k\<close> on numbers: a 32-bit integer shift, the shift count taken modulo 32 and
  the result read as a signed 32-bit integer.
\<close>

definition int32_shl1 :: "int \<Rightarrow> int" where
  "int32_shl1 k = sint (push_bit (nat (k mod 32)) (1 :: 32 word))"

section \<open>Slice\<close>

text \<open>
  A Slice method returns a value (\<open>Inr\<close>, with the Slice as the call left it) or throws
  (\<open>Inl\<close>, with the error and the Slice as it was at the throw).
\<close>

type_synonym 'a sres = "error \<times> Slice + 'a \<times> Slice"

definition bindS :: "'a sres \<Rightarrow> ('a \<Rightarrow> Slice \<Rightarrow> 'b sres) \<Rightarrow> 'b sres" where
  "bindS r f = (case r of Inl e \<Rightarrow> Inl e | Inr (v, s) \<Rightarrow> f v s)"

definition new_Slice :: "Bit list \<Rightarrow> Cell list \<Rightarrow> Slice" where
  "new_Slice bs rs = \<lparr>slice_bits = bs, slice_refs = rs\<rparr>"

text \<open>
  \<^verbatim>\<open>skip\<close> (lines 63-71): \<^verbatim>\<open>this._bits.splice(0, size)\<close> removes the first \<open>size\<close>
  elements (none for a negative \<open>size\<close>).
\<close>

definition skip :: "int \<Rightarrow> Slice \<Rightarrow> unit sres" where
  "skip sz s =
     (if int (length (slice_bits s)) < sz then Inl (BitOverflow, s)
      else Inr ((), s\<lparr>slice_bits := drop (nat sz) (slice_bits s)\<rparr>))"

text \<open>
  \<^verbatim>\<open>loadRef\<close>, \<^verbatim>\<open>preloadRef\<close> (lines 92-106), \<^verbatim>\<open>loadBit\<close>, \<^verbatim>\<open>preloadBit\<close>
  (lines 126-140), \<^verbatim>\<open>loadBits\<close>, \<^verbatim>\<open>preloadBits\<close> (lines 162-176): \<^verbatim>\<open>shift()\<close> and
  \<^verbatim>\<open>splice(0, size)\<close> remove from the front, \<^verbatim>\<open>[0]\<close> and \<^verbatim>\<open>slice(0, size)\<close> only read.
\<close>

definition loadRef :: "Slice \<Rightarrow> Cell sres" where
  "loadRef s =
     (case slice_refs s of
        [] \<Rightarrow> Inl (RefOverflow, s)
      | r # rs \<Rightarrow> Inr (r, s\<lparr>slice_refs := rs\<rparr>))"

definition preloadRef :: "Slice \<Rightarrow> Cell sres" where
  "preloadRef s =
     (case slice_refs s of
        [] \<Rightarrow> Inl (RefOverflow, s)
      | r # rs \<Rightarrow> Inr (r, s))"

definition loadBit :: "Slice \<Rightarrow> Bit sres" where
  "loadBit s =
     (case slice_bits s of
        [] \<Rightarrow> Inl (BitOverflow, s)
      | x # xs \<Rightarrow> Inr (x, s\<lparr>slice_bits := xs\<rparr>))"

definition preloadBit :: "Slice \<Rightarrow> Bit sres" where
  "preloadBit s =
     (case slice_bits s of
        [] \<Rightarrow> Inl (BitOverflow, s)
      | x # xs \<Rightarrow> Inr (x, s))"

definition loadBits :: "int \<Rightarrow> Slice \<Rightarrow> Bit list sres" where
  "loadBits sz s =
     (if sz \<le> 0 \<or> int (length (slice_bits s)) < sz then Inl (BitOverflow, s)
      else Inr (take (nat sz) (slice_bits s), s\<lparr>slice_bits := drop (nat sz) (slice_bits s)\<rparr>))"

definition preloadBits :: "int \<Rightarrow> Slice \<Rightarrow> Bit list sres" where
  "preloadBits sz s =
     (if sz \<le> 0 \<or> int (length (slice_bits s)) < sz then Inl (BitOverflow, s)
      else Inr (take (nat sz) (slice_bits s), s))"

text \<open>
  \<^verbatim>\<open>loadUint\<close>, \<^verbatim>\<open>preloadUint\<close> (lines 232-242):
  \<^verbatim>\<open>bits.reverse().reduce((acc, bit, i) => (bit * (2 ** i) + acc), 0)\<close>
\<close>

definition reduce_bits :: "Bit list \<Rightarrow> number" where
  "reduce_bits bs =
     foldl (\<lambda>acc (x, i). number_add (number_mul (Finite (if x then 1 else 0)) (number_pow2 i)) acc)
       (Finite 0) (zip (rev bs) [0..<length bs])"

definition loadUint :: "int \<Rightarrow> Slice \<Rightarrow> number sres" where
  "loadUint sz s = bindS (loadBits sz s) (\<lambda>bs s. Inr (reduce_bits bs, s))"

definition preloadUint :: "int \<Rightarrow> Slice \<Rightarrow> number sres" where
  "preloadUint sz s = bindS (preloadBits sz s) (\<lambda>bs s. Inr (reduce_bits bs, s))"

text \<open>
  \<^verbatim>\<open>loadInt\<close>, \<^verbatim>\<open>preloadInt\<close> (lines 198-210):
  \<^verbatim>\<open>const int = 1 << (size - 1); return uint >= int ? (uint - (int * 2)) : uint\<close>
\<close>

definition to_signed :: "int \<Rightarrow> number \<Rightarrow> number" where
  "to_signed sz u =
     (let i = Finite (int32_shl1 (sz - 1))
      in if number_ge u i then number_sub u (number_mul i (Finite 2)) else u)"

definition loadInt :: "int \<Rightarrow> Slice \<Rightarrow> number sres" where
  "loadInt sz s = bindS (loadUint sz s) (\<lambda>u s. Inr (to_signed sz u, s))"

definition preloadInt :: "int \<Rightarrow> Slice \<Rightarrow> number sres" where
  "preloadInt sz s = bindS (preloadUint sz s) (\<lambda>u s. Inr (to_signed sz u, s))"

text \<open>
  \<^verbatim>\<open>loadBytes\<close>, \<^verbatim>\<open>preloadBytes\<close> (lines 262-272), \<^verbatim>\<open>loadString\<close>,
  \<^verbatim>\<open>preloadString\<close> (lines 294-308). \<^verbatim>\<open>bitsToBytes\<close> and \<^verbatim>\<open>bytesToString\<close>
  (\<^verbatim>\<open>../utils/helpers\<close>) are not among the sources: parameters.
\<close>

definition loadBytes :: "(Bit list \<Rightarrow> 'bytes) \<Rightarrow> int \<Rightarrow> Slice \<Rightarrow> 'bytes sres" where
  "loadBytes bitsToBytes sz s = bindS (loadBits sz s) (\<lambda>bs s. Inr (bitsToBytes bs, s))"

definition preloadBytes :: "(Bit list \<Rightarrow> 'bytes) \<Rightarrow> int \<Rightarrow> Slice \<Rightarrow> 'bytes sres" where
  "preloadBytes bitsToBytes sz s = bindS (preloadBits sz s) (\<lambda>bs s. Inr (bitsToBytes bs, s))"

text \<open>\<^verbatim>\<open>size: number = null\<close>: \<open>None\<close> is the default.\<close>

definition loadString ::
  "(Bit list \<Rightarrow> 'bytes) \<Rightarrow> ('bytes \<Rightarrow> 'str) \<Rightarrow> int option \<Rightarrow> Slice \<Rightarrow> 'str sres" where
  "loadString bitsToBytes bytesToString sz s =
     bindS (case sz of
              None \<Rightarrow> loadBytes bitsToBytes (int (length (slice_bits s))) s
            | Some n \<Rightarrow> loadBytes bitsToBytes n s)
       (\<lambda>bytes s. Inr (bytesToString bytes, s))"

definition preloadString ::
  "(Bit list \<Rightarrow> 'bytes) \<Rightarrow> ('bytes \<Rightarrow> 'str) \<Rightarrow> int option \<Rightarrow> Slice \<Rightarrow> 'str sres" where
  "preloadString bitsToBytes bytesToString sz s =
     bindS (case sz of
              None \<Rightarrow> preloadBytes bitsToBytes (int (length (slice_bits s))) s
            | Some n \<Rightarrow> preloadBytes bitsToBytes n s)
       (\<lambda>bytes s. Inr (bytesToString bytes, s))"

text \<open>The unsigned value of bits, the most significant first.\<close>

definition bits_value :: "Bit list \<Rightarrow> nat" where
  "bits_value bs = foldl (\<lambda>acc x. 2 * acc + (if x then 1 else 0)) 0 bs"

text \<open>Modelled from the spec: \<^verbatim>\<open>bitsToInt8\<close> (\<^verbatim>\<open>../utils/helpers\<close>) is not among the sources.
  It reads the workchain's eight bits as an 8-bit signed integer.
\<close>

definition bitsToInt8 :: "Bit list \<Rightarrow> int" where
  "bitsToInt8 bs = sint (word_of_nat (bits_value bs) :: 8 word)"

text \<open>Bytes of a bit sequence, eight bits a byte, the most significant bit first.\<close>

fun bytes_of_bits :: "Bit list \<Rightarrow> 8 word list" where
  "bytes_of_bits bs =
     (if length bs < 8 then []
      else word_of_nat (bits_value (take 8 bs)) # bytes_of_bits (drop 8 bs))"

declare bytes_of_bits.simps [simp del]

text \<open>Modelled from the spec: \<^verbatim>\<open>bitsToHex\<close> and the constructor \<^verbatim>\<open>new Address(raw)\<close> are not
  among the sources. The raw text \<^verbatim>\<open>workchain:hash\<close> names the workchain and the 256 bits
  of the hash; the address built from it has that workchain and these bits as its hash.
\<close>

definition Address_of_raw :: "int \<Rightarrow> Bit list \<Rightarrow> Address" where
  "Address_of_raw wc hash_bits = \<lparr>workchain = wc, hash = bytes_of_bits hash_bits\<rparr>"

text \<open>Modelled from the spec: \<^verbatim>\<open>bitsToHex\<close> and the constructor \<^verbatim>\<open>new Coins(hex, true)\<close> are
  not among the sources. The magnitude's bits are read as an unsigned big integer of nano
  units.
\<close>

definition Coins_of_bits :: "Bit list \<Rightarrow> Coins" where
  "Coins_of_bits bs = int (bits_value bs)"

text \<open>
  \<^verbatim>\<open>xs.splice(start, count)\<close> on a local array: the removed elements and what is left.
\<close>

definition js_splice :: "'a list \<Rightarrow> nat \<Rightarrow> nat \<Rightarrow> 'a list \<times> 'a list" where
  "js_splice xs start cnt = (take cnt (drop start xs), take start xs @ drop (start + cnt) xs)"

text \<open>
  \<^verbatim>\<open>loadAddress\<close> (lines 330-355) and \<^verbatim>\<open>preloadAddress\<close> (lines 357-382).
  \<^verbatim>\<open>flag.every((bit, i) => bit === FLAG[i])\<close>; the three \<^verbatim>\<open>bits.splice(2, n)\<close> on the
  local copy of the 267 bits; \<^verbatim>\<open>this.skip(n) && value\<close> skips and gives the value.
\<close>

definition every_eq :: "Bit list \<Rightarrow> Bit list \<Rightarrow> bool" where
  "every_eq flag FLAG = list_all (\<lambda>i. i < length FLAG \<and> flag ! i = FLAG ! i) [0..<length flag]"

definition decode_address :: "Bit list \<Rightarrow> Address" where
  "decode_address bs0 =
     (let (anycast, bs1) = js_splice bs0 2 1;
          (wc_bits, bs2) = js_splice bs1 2 8;
          wc = bitsToInt8 wc_bits;
          (hash_bits, bs3) = js_splice bs2 2 256
      in Address_of_raw wc hash_bits)"

definition loadAddress :: "Slice \<Rightarrow> Address option sres" where
  "loadAddress s =
     (let FLAG_ADDRESS_NO = [False, False]; FLAG_ADDRESS = [True, False]
      in bindS (preloadBits 2 s) (\<lambda>flag s.
           if every_eq flag FLAG_ADDRESS_NO then bindS (skip 2 s) (\<lambda>_ s. Inr (None, s))
           else if every_eq flag FLAG_ADDRESS then
             (let sz = 2 + 1 + 8 + 256
              in bindS (preloadBits sz s) (\<lambda>bs s.
                   let a = decode_address bs
                   in bindS (skip sz s) (\<lambda>_ s. Inr (Some a, s))))
           else Inl (InvalidAddressFlag, s)))"

definition preloadAddress :: "Slice \<Rightarrow> Address option sres" where
  "preloadAddress s =
     (let FLAG_ADDRESS_NO = [False, False]; FLAG_ADDRESS = [True, False]
      in bindS (preloadBits 2 s) (\<lambda>flag s.
           if every_eq flag FLAG_ADDRESS_NO then Inr (None, s)
           else if every_eq flag FLAG_ADDRESS then
             (let sz = 2 + 1 + 8 + 256
              in bindS (preloadBits sz s) (\<lambda>bs s.
                   let a = decode_address bs
                   in Inr (Some a, s)))
           else Inl (InvalidAddressFlag, s)))"

text \<open>
  \<^verbatim>\<open>loadCoins\<close> (lines 403-415) and \<^verbatim>\<open>preloadCoins\<close> (lines 417-429):
  \<^verbatim>\<open>length === 0\<close> and \<^verbatim>\<open>4 + (length * 8)\<close> on the number \<^verbatim>\<open>preloadUint(4)\<close> returns,
  which is an integer from 0 to 15, so the size is finite (an infinite size would be
  rejected by \<^verbatim>\<open>preloadBits\<close>); \<^verbatim>\<open>bits.splice(4)\<close> is what follows the first four bits.
\<close>

definition loadCoins :: "Slice \<Rightarrow> Coins sres" where
  "loadCoins s =
     bindS (preloadUint 4 s) (\<lambda>len s.
       if len = Finite 0 then bindS (skip 4 s) (\<lambda>_ s. Inr (0, s))
       else
         (case number_add (Finite 4) (number_mul len (Finite 8)) of
            Finite sz \<Rightarrow>
              bindS (preloadBits sz s) (\<lambda>bs s.
                let hex = fst (js_splice bs 4 (length bs - 4))
                in bindS (skip sz s) (\<lambda>_ s. Inr (Coins_of_bits hex, s)))
          | _ \<Rightarrow> Inl (BitOverflow, s)))"

definition preloadCoins :: "Slice \<Rightarrow> Coins sres" where
  "preloadCoins s =
     bindS (preloadUint 4 s) (\<lambda>len s.
       if len = Finite 0 then Inr (0, s)
       else
         (case number_add (Finite 4) (number_mul len (Finite 8)) of
            Finite sz \<Rightarrow>
              bindS (preloadBits sz s) (\<lambda>bs s.
                let hex = fst (js_splice bs 4 (length bs - 4))
                in Inr (Coins_of_bits hex, s))
          | _ \<Rightarrow> Inl (BitOverflow, s)))"

text \<open>What a call gave (its value or its error), and the Slice it left behind.\<close>

definition result_of :: "'a sres \<Rightarrow> error + 'a" where
  "result_of r = (case r of Inl (e, s) \<Rightarrow> Inl e | Inr (v, s) \<Rightarrow> Inr v)"

definition slice_after :: "'a sres \<Rightarrow> Slice" where
  "slice_after r = (case r of Inl (e, s) \<Rightarrow> s | Inr (v, s) \<Rightarrow> s)"

text \<open>A Slice has no more bits and no more references than another.\<close>

definition no_longer :: "Slice \<Rightarrow> Slice \<Rightarrow> bool" where
  "no_longer s' s =
     (length (slice_bits s') \<le> length (slice_bits s)
      \<and> length (slice_refs s') \<le> length (slice_refs s))"

section \<open>Message templates\<close>

text \<open>Modelled from the spec: \<^verbatim>\<open>Cell.parse()\<close> is not among the sources. It gives a fresh
  Slice over copies of the cell's bits and references.
\<close>

definition parse :: "Cell \<Rightarrow> Slice" where
  "parse c = new_Slice (cell_bits c) (cell_refs c)"

record MessageXOptions =
  info :: Cell
  init :: "Cell option"
  body :: "Cell option"

text \<open>The \<^verbatim>\<open>if (init) ... else ...\<close> statement of \<^verbatim>\<open>MessageX\<close> (lines 117-128).\<close>

definition MessageX_init :: "Cell option \<Rightarrow> Builder \<Rightarrow> outcome" where
  "MessageX_init i b =
     (case i of
        Some c \<Rightarrow>
          seqB [storeBit 1,
                \<lambda>b. if remainder b - 1 \<ge> int (length (cell_bits c))
                     then seqB [storeBit 0, storeSlice (parse c)] b
                     else seqB [storeBit 1, storeRef c] b] b
      | None \<Rightarrow> storeBit 0 b)"

text \<open>The \<^verbatim>\<open>if (body) ... else ...\<close> statement of \<^verbatim>\<open>MessageX\<close> (lines 130-138).\<close>

definition MessageX_body :: "Cell option \<Rightarrow> Builder \<Rightarrow> outcome" where
  "MessageX_body bd b =
     (case bd of
        Some c \<Rightarrow>
          (if remainder b \<ge> int (length (cell_bits c))
           then seqB [storeBit 0, storeSlice (parse c)] b
           else seqB [storeBit 1, storeRef c] b)
      | None \<Rightarrow> storeBit 0 b)"

text \<open>
  \<^verbatim>\<open>MessageX\<close> (lines 111-141): a fresh Builder of the default size, the header's Slice,
  the two statements above, \<^verbatim>\<open>builder.cell()\<close>. It returns the cell or throws the
  Builder's error.
\<close>

definition finish :: "outcome \<Rightarrow> error + Cell" where
  "finish r = (case r of Inl (e, b) \<Rightarrow> Inl e | Inr b \<Rightarrow> Inr (cell b))"

definition MessageX :: "MessageXOptions \<Rightarrow> error + Cell" where
  "MessageX options =
     finish (seqB [storeSlice (parse (info options)),
                   MessageX_init (init options),
                   MessageX_body (body options)] (new_Builder 1023))"

section \<open>Sequences of store operations\<close>

datatype 's store_op =
    StoreBit int
  | StoreBits "Bit list"
  | StoreRef Cell
  | StoreSlice Slice
  | StoreInt int int
  | StoreUint int int
  | StoreBytes "8 word list"
  | StoreString 's
  | StoreAddress "Address option"
  | StoreCoins Coins

fun apply_op :: "('s \<Rightarrow> 8 word list) \<Rightarrow> 's store_op \<Rightarrow> Builder \<Rightarrow> outcome" where
  "apply_op stb (StoreBit x) = storeBit x"
| "apply_op stb (StoreBits bs) = storeBits bs"
| "apply_op stb (StoreRef c) = storeRef c"
| "apply_op stb (StoreSlice sl) = storeSlice sl"
| "apply_op stb (StoreInt v len) = storeInt v len"
| "apply_op stb (StoreUint v len) = storeUint v len"
| "apply_op stb (StoreBytes bytes) = storeBytes bytes"
| "apply_op stb (StoreString str) = storeString stb str"
| "apply_op stb (StoreAddress a) = storeAddress a"
| "apply_op stb (StoreCoins c) = storeCoins c"

text \<open>The Builder a call leaves behind, whether it returned or threw.\<close>

definition builder_after :: "outcome \<Rightarrow> Builder" where
  "builder_after r = (case r of Inl (e, b) \<Rightarrow> b | Inr b \<Rightarrow> b)"

definition run_ops :: "('s \<Rightarrow> 8 word list) \<Rightarrow> 's store_op list \<Rightarrow> Builder \<Rightarrow> Builder" where
  "run_ops stb ops b = foldl (\<lambda>b op. builder_after (apply_op stb op b)) b ops"

text \<open>An operation whose argument has the type the specification gives it.\<close>

fun well_typed :: "'s store_op \<Rightarrow> bool" where
  "well_typed (StoreAddress (Some a)) = valid_address a"
| "well_typed op = True"

text \<open>The Builder's invariant: at most \<open>size\<close> bits and at most four references.\<close>

definition builder_inv :: "Builder \<Rightarrow> bool" where
  "builder_inv b =
     (int (length (builder_bits b)) \<le> builder_size b \<and> length (builder_refs b) \<le> 4)"

section \<open>Builder: what each method computes\<close>

lemma storeBit_ok:
  "1 \<le> remainder b \<Longrightarrow>
     storeBit (if x then 1 else 0) b = Inr (b\<lparr>builder_bits := builder_bits b @ [x]\<rparr>)"
  by (simp add: storeBit_def checkBitsOverflow_def)

lemma remainder_append [simp]:
  "remainder (b\<lparr>builder_bits := builder_bits b @ xs\<rparr>) = remainder b - int (length xs)"
  by (simp add: remainder_def)

lemma remainder_refs [simp]:
  "remainder (b\<lparr>builder_refs := rs\<rparr>) = remainder b"
  by (simp add: remainder_def)

lemma forEachB_storeBit:
  "int (length bs) \<le> remainder b \<Longrightarrow>
     forEachB (\<lambda>x. storeBit (if x then 1 else 0)) bs b =
       Inr (b\<lparr>builder_bits := builder_bits b @ bs\<rparr>)"
proof (induction bs arbitrary: b)
  case Nil
  then show ?case by simp
next
  case (Cons x xs)
  then have "1 \<le> remainder b" by simp
  then show ?case
    using Cons by (simp add: storeBit_ok)
qed

lemma storeBits_eq:
  "storeBits bs b =
     (if int (length bs) > remainder b then Inl (BitOverflow, b)
      else Inr (b\<lparr>builder_bits := builder_bits b @ bs\<rparr>))"
  by (simp add: storeBits_def checkBitsOverflow_def forEachB_storeBit)

lemma storeRef_eq:
  "storeRef c b =
     (if length (builder_refs b) \<ge> 4 then Inl (RefOverflow, b)
      else Inr (b\<lparr>builder_refs := builder_refs b @ [c]\<rparr>))"
  by (simp add: storeRef_def checkRefsOverflow_def)

lemma forEachB_storeRef:
  "length (builder_refs b) + length rs \<le> 4 \<Longrightarrow>
     forEachB storeRef rs b = Inr (b\<lparr>builder_refs := builder_refs b @ rs\<rparr>)"
proof (induction rs arbitrary: b)
  case Nil
  then show ?case by simp
next
  case (Cons r rs)
  then show ?case by (simp add: storeRef_eq)
qed

lemma storeSlice_eq:
  "storeSlice sl b =
     (if int (length (slice_bits sl)) > remainder b then Inl (BitOverflow, b)
      else if length (builder_refs b) + length (slice_refs sl) > 4 then Inl (RefOverflow, b)
      else Inr (b\<lparr>builder_bits := builder_bits b @ slice_bits sl,
                   builder_refs := builder_refs b @ slice_refs sl\<rparr>))"
  by (simp add: storeSlice_def Let_def checkBitsOverflow_def checkRefsOverflow_def
      storeBits_eq forEachB_storeRef)

lemma length_number_bits [simp]: "length (number_bits v n) = n"
  by (simp add: number_bits_def)

lemma bigint_shl1_eq: "bigint_shl1 k = (if k < 0 then 0 else 2 ^ nat k)"
  by (auto simp add: bigint_shl1_def drop_bit_eq_div)

lemma storeUint_eq:
  "storeUint v len b =
     (if v < 0 \<or> len < 0 \<or> v \<ge> 2 ^ nat len then Inl (RangeError, b)
      else if len > remainder b then Inl (BitOverflow, b)
      else Inr (b\<lparr>builder_bits := builder_bits b @ number_bits v (nat len)\<rparr>))"
  by (auto simp add: storeUint_def storeNumber_def storeBits_eq bigint_shl1_eq)

lemma storeInt_eq:
  "storeInt v len b =
     (if len \<le> 0 \<or> v < - (2 ^ nat (len - 1)) \<or> v \<ge> 2 ^ nat (len - 1) then Inl (RangeError, b)
      else if len > remainder b then Inl (BitOverflow, b)
      else Inr (b\<lparr>builder_bits := builder_bits b @ number_bits v (nat len)\<rparr>))"
  by (auto simp add: storeInt_def Let_def storeNumber_def storeBits_eq bigint_shl1_eq)


text \<open>Outside the widths of C8: a width below 1, respectively below 0, is always rejected.\<close>

lemma store_nonpositive_width:
  "len \<le> 0 \<Longrightarrow> storeInt v len b = Inl (RangeError, b)"
  "len < 0 \<Longrightarrow> storeUint v len b = Inl (RangeError, b)"
  by (simp_all add: storeInt_eq storeUint_eq)

lemma forEachB_storeUint8:
  fixes bytes :: "8 word list"
  shows "int (length bytes) * 8 \<le> remainder b \<Longrightarrow>
     forEachB (\<lambda>byte. storeUint (uint byte) 8) bytes b =
       Inr (b\<lparr>builder_bits := builder_bits b @ concat (map (\<lambda>w. number_bits (uint w) 8) bytes)\<rparr>)"
proof (induction bytes arbitrary: b)
  case Nil
  then show ?case by simp
next
  case (Cons w ws)
  have "uint w < 2 ^ LENGTH(8)" by (rule uint_lt2p)
  then have u: "uint w < 256" by simp
  have "8 \<le> remainder b" using Cons.prems by simp
  then show ?case
    using Cons u by (simp add: storeUint_eq)
qed

lemma storeBytes_eq:
  "storeBytes bytes b =
     (if int (length bytes) * 8 > remainder b then Inl (BitOverflow, b)
      else Inr (b\<lparr>builder_bits := builder_bits b @ concat (map (\<lambda>w. number_bits (uint w) 8) bytes)\<rparr>))"
  by (simp add: storeBytes_def checkBitsOverflow_def forEachB_storeUint8)

lemma length_concat_bytes [simp]:
  "length (concat (map (\<lambda>w. number_bits (uint w) 8) bytes)) = 8 * length bytes"
  by (induction bytes) simp_all

lemma storeAddress_None_eq:
  "storeAddress None b =
     (if 2 > remainder b then Inl (BitOverflow, b)
      else Inr (b\<lparr>builder_bits := builder_bits b @ [False, False]\<rparr>))"
  by (simp add: storeAddress_def storeBits_eq)

lemma storeAddress_Some_eq:
  assumes "valid_address a"
  shows "storeAddress (Some a) b =
     (if 267 > remainder b then Inl (BitOverflow, b)
      else Inr (b\<lparr>builder_bits := builder_bits b @ [True, False] @ [False] @
                     number_bits (workchain a) 8 @
                     concat (map (\<lambda>w. number_bits (uint w) 8) (hash a))\<rparr>))"
proof -
  have nb: "number_bits 0 (Suc 0) = [False]" by (simp add: number_bits_def)
  show ?thesis
    using assms
    by (simp add: storeAddress_def valid_address_def Let_def checkBitsOverflow_def
        storeBits_eq storeUint_eq storeInt_eq storeBytes_eq nb)
qed

lemma hex_length_bound: "n < 16 ^ hex_length n"
proof (induction n rule: hex_length.induct)
  case (1 n)
  show ?case
  proof (cases "n < 16")
    case True
    then show ?thesis by (subst hex_length.simps) simp
  next
    case False
    then have "n div 16 < 16 ^ hex_length (n div 16)" using 1 by simp
    then have "n < 16 * 16 ^ hex_length (n div 16)" by simp
    then show ?thesis using False by (subst hex_length.simps) simp
  qed
qed

lemma hex_length_pos: "0 < hex_length n"
  by (subst hex_length.simps) simp

lemma hex_length_le: "0 < k \<Longrightarrow> n < 16 ^ k \<Longrightarrow> hex_length n \<le> k"
proof (induction n arbitrary: k rule: hex_length.induct)
  case (1 n)
  show ?case
  proof (cases "n < 16")
    case True
    then show ?thesis using 1(2) by (subst hex_length.simps) simp
  next
    case False
    then obtain j where k: "k = Suc j" using 1(2) by (cases k) simp_all
    have "j \<noteq> 0"
    proof
      assume "j = 0"
      then show False using False 1(3) k by simp
    qed
    moreover have "n div 16 < 16 ^ j" using 1(3) k by (simp add: less_mult_imp_div_less mult.commute)
    ultimately have "hex_length (n div 16) \<le> j" using 1(1) [of j] False by simp
    then show ?thesis using False k by (subst hex_length.simps) simp
  qed
qed

lemma byte_length_bound: "int n < 2 ^ (8 * ((hex_length n + 1) div 2))"
proof -
  have "hex_length n \<le> 2 * ((hex_length n + 1) div 2)" by simp
  then have "(16::nat) ^ hex_length n \<le> 16 ^ (2 * ((hex_length n + 1) div 2))"
    by (rule power_increasing) simp
  also have "\<dots> = 2 ^ (8 * ((hex_length n + 1) div 2))"
  proof -
    have "(16::nat) = 2 ^ 4" by simp
    then show ?thesis by (simp only: power_mult [symmetric]) simp
  qed
  finally have "n < 2 ^ (8 * ((hex_length n + 1) div 2))"
    using hex_length_bound [of n] by simp
  then have "int n < int (2 ^ (8 * ((hex_length n + 1) div 2)))" by (simp only: of_nat_less_iff)
  then show ?thesis by simp
qed

lemma storeCoins_eq:
  "storeCoins c b =
     (if c < 0 then Inl (NegativeAmount, b)
      else if c = 0 then
        (if 4 > remainder b then Inl (BitOverflow, b)
         else Inr (b\<lparr>builder_bits := builder_bits b @ number_bits 0 4\<rparr>))
      else
        (let len = (hex_length (nat c) + 1) div 2
         in if 4 + int len * 8 > remainder b then Inl (BitOverflow, b)
            else if len \<ge> 16 then Inl (RangeError, b)
            else Inr (b\<lparr>builder_bits := builder_bits b @ number_bits (int len) 4 @
                           number_bits c (len * 8)\<rparr>)))"
proof -
  consider "c < 0" | "c = 0" | "0 < c" by linarith
  then show ?thesis
  proof cases
    case 1
    then show ?thesis by (simp add: storeCoins_def isNegative_def)
  next
    case 2
    then show ?thesis by (simp add: storeCoins_def isNegative_def isZero_def storeUint_eq)
  next
    case 3
    let ?len = "(hex_length (nat c) + 1) div 2"
    have "int (nat c) < 2 ^ (8 * ?len)" by (rule byte_length_bound)
    then have c: "c < 2 ^ (?len * 8)" using 3 by (simp add: mult.commute)
    have n: "nat (int k * 8) = k * 8" for k by (simp add: nat_mult_distrib)
    show ?thesis
      using 3 c
      by (simp add: storeCoins_def isNegative_def isZero_def toNano_def Let_def
          checkBitsOverflow_def storeUint_eq n)
  qed
qed

lemma apply_op_atomic:
  assumes "well_typed op" "apply_op stb op b = Inl (e, b')"
  shows "b' = b"
proof (cases op)
  case (StoreAddress a)
  then show ?thesis
    using assms
    by (cases a) (auto simp add: storeAddress_None_eq storeAddress_Some_eq split: if_splits)
next
  case (StoreCoins c)
  then show ?thesis
    using assms by (auto simp add: storeCoins_eq Let_def split: if_splits)
qed (use assms in \<open>auto simp add: storeBit_def checkBitsOverflow_def storeBits_eq storeRef_eq
      storeSlice_eq storeInt_eq storeUint_eq storeBytes_eq storeString_def split: if_splits\<close>)

lemma seqB_inv:
  assumes "\<And>f b. f \<in> set fs \<Longrightarrow> builder_inv b \<Longrightarrow>
             builder_inv (builder_after (f b)) \<and> builder_size (builder_after (f b)) = builder_size b"
    and "builder_inv b"
  shows "builder_inv (builder_after (seqB fs b))
         \<and> builder_size (builder_after (seqB fs b)) = builder_size b"
  using assms
proof (induction fs arbitrary: b)
  case Nil
  then show ?case by (simp add: builder_after_def)
next
  case (Cons f fs)
  have step: "builder_inv (builder_after (f b)) \<and> builder_size (builder_after (f b)) = builder_size b"
    using Cons.prems by simp
  show ?case
  proof (cases "f b")
    case (Inl e)
    then show ?thesis using step by simp
  next
    case (Inr b')
    then have b': "builder_inv b'" "builder_size b' = builder_size b"
      using step by (simp_all add: builder_after_def)
    have "builder_inv (builder_after (seqB fs b'))
          \<and> builder_size (builder_after (seqB fs b')) = builder_size b'"
      using Cons.prems(1) b'(1) by (intro Cons.IH) simp_all
    then show ?thesis using Inr b'(2) by simp
  qed
qed

lemma basic_inv:
  assumes "builder_inv b"
  shows "builder_inv (builder_after (checkBitsOverflow n b))
         \<and> builder_size (builder_after (checkBitsOverflow n b)) = builder_size b"
    and "builder_inv (builder_after (storeBits bs b))
         \<and> builder_size (builder_after (storeBits bs b)) = builder_size b"
    and "builder_inv (builder_after (storeUint v len b))
         \<and> builder_size (builder_after (storeUint v len b)) = builder_size b"
    and "builder_inv (builder_after (storeInt v len b))
         \<and> builder_size (builder_after (storeInt v len b)) = builder_size b"
    and "builder_inv (builder_after (storeBytes bytes b))
         \<and> builder_size (builder_after (storeBytes bytes b)) = builder_size b"
  using assms
  by (auto simp add: checkBitsOverflow_def storeBits_eq storeUint_eq storeInt_eq storeBytes_eq
      builder_inv_def builder_after_def remainder_def)

lemma storeAddress_inv:
  assumes "builder_inv b"
  shows "builder_inv (builder_after (storeAddress a b))
         \<and> builder_size (builder_after (storeAddress a b)) = builder_size b"
proof (cases a)
  case None
  then show ?thesis using basic_inv(2) [OF assms] by (simp add: storeAddress_def)
next
  case (Some x)
  show ?thesis
    unfolding Some storeAddress_def option.case Let_def
    by (rule seqB_inv [OF _ assms]) (auto simp add: basic_inv)
qed

lemma apply_op_inv:
  assumes "builder_inv b"
  shows "builder_inv (builder_after (apply_op stb op b))
         \<and> builder_size (builder_after (apply_op stb op b)) = builder_size b"
proof (cases op)
  case (StoreAddress a)
  then show ?thesis using storeAddress_inv [OF assms] by simp
next
  case (StoreCoins c)
  then show ?thesis
    using assms by (auto simp add: storeCoins_eq Let_def builder_inv_def
        builder_after_def remainder_def split: if_splits)
qed (use assms in \<open>auto simp add: storeBit_def checkBitsOverflow_def storeBits_eq storeRef_eq
      storeSlice_eq storeInt_eq storeUint_eq storeBytes_eq storeString_def builder_inv_def
      builder_after_def remainder_def split: if_splits\<close>)

lemma run_ops_inv:
  assumes "builder_inv b"
  shows "builder_inv (run_ops stb ops b) \<and> builder_size (run_ops stb ops b) = builder_size b"
  using assms
proof (induction ops arbitrary: b)
  case Nil
  then show ?case by (simp add: run_ops_def)
next
  case (Cons op ops)
  have "run_ops stb (op # ops) b = run_ops stb ops (builder_after (apply_op stb op b))"
    by (simp add: run_ops_def)
  then show ?case
    using Cons apply_op_inv [of b stb op] by simp
qed

text \<open>
  An address outside the specification's type: the workchain 200 passes the capacity check,
  three bits are appended, and \<open>storeInt\<close> then throws.
\<close>

lemma storeAddress_ill_typed:
  "storeAddress (Some \<lparr>workchain = 200, hash = replicate 32 0\<rparr>) (new_Builder 1023) =
     Inl (RangeError, \<lparr>builder_size = 1023, builder_bits = [True, False, False],
                       builder_refs = []\<rparr>)"
  by (simp add: storeAddress_def checkBitsOverflow_def storeBits_eq storeUint_eq storeInt_eq
      new_Builder_def remainder_def number_bits_def)

text \<open>
  C3. A Builder created with a capacity \<open>C \<ge> 0\<close> holds, after any sequence of store
  operations (each returning or throwing), at most \<open>C\<close> bits and at most four
  references, and a store operation that throws there leaves the Builder as it was before
  the call, when its argument has the type the specification gives it (an address has an
  8-bit signed workchain and a 32-byte hash).
\<close>

theorem store_ops_invariant:
  assumes "0 \<le> C"
  shows "int (length (builder_bits (run_ops stb ops (new_Builder C)))) \<le> C
       \<and> length (builder_refs (run_ops stb ops (new_Builder C))) \<le> 4
       \<and> (\<forall>op e b'. well_typed op \<longrightarrow>
             apply_op stb op (run_ops stb ops (new_Builder C)) = Inl (e, b') \<longrightarrow>
             b' = run_ops stb ops (new_Builder C))"
proof -
  have "builder_inv (new_Builder C)" using assms by (simp add: builder_inv_def new_Builder_def)
  then have "builder_inv (run_ops stb ops (new_Builder C))
           \<and> builder_size (run_ops stb ops (new_Builder C)) = builder_size (new_Builder C)"
    by (rule run_ops_inv)
  then show ?thesis
    using apply_op_atomic by (auto simp add: builder_inv_def new_Builder_def)
qed

theorem store_ops_invariant_witness:
  "(0::int) \<le> 4
   \<and> well_typed (StoreBit 1 :: string store_op)
   \<and> builder_bits (run_ops (\<lambda>s. []) [StoreBits [True, False, True, True] :: string store_op]
         (new_Builder 4)) = [True, False, True, True]
   \<and> apply_op (\<lambda>s. []) (StoreBit 1 :: string store_op)
         (run_ops (\<lambda>s. []) [StoreBits [True, False, True, True]] (new_Builder 4)) =
       Inl (BitOverflow, run_ops (\<lambda>s. []) [StoreBits [True, False, True, True]] (new_Builder 4))
   \<and> length (builder_refs (run_ops (\<lambda>s. [])
         [StoreRef (Cell [] [] False), StoreRef (Cell [] [] False), StoreRef (Cell [] [] False),
          StoreRef (Cell [] [] False) :: string store_op] (new_Builder 4))) = 4
   \<and> apply_op (\<lambda>s. []) (StoreRef (Cell [] [] False) :: string store_op)
         (run_ops (\<lambda>s. [])
           [StoreRef (Cell [] [] False), StoreRef (Cell [] [] False), StoreRef (Cell [] [] False),
            StoreRef (Cell [] [] False)] (new_Builder 4)) =
       Inl (RefOverflow, run_ops (\<lambda>s. [])
           [StoreRef (Cell [] [] False), StoreRef (Cell [] [] False), StoreRef (Cell [] [] False),
            StoreRef (Cell [] [] False)] (new_Builder 4))"
  using store_ops_invariant
    [where C = 4 and ops = "[StoreBits [True, False, True, True] :: string store_op]"
       and stb = "\<lambda>s. []"]
  by (simp add: run_ops_def builder_after_def storeBits_eq storeRef_eq storeBit_def
      checkBitsOverflow_def new_Builder_def remainder_def)

text \<open>
  C8. For a width \<open>len \<ge> 0\<close>, \<open>storeUint\<close> throws RangeError exactly when the value
  is negative or at least \<open>2 ^ len\<close>; for a width \<open>len \<ge> 1\<close>, \<open>storeInt\<close> throws
  RangeError exactly when the value is below \<open>- 2 ^ (len - 1)\<close> or at least
  \<open>2 ^ (len - 1)\<close>; whenever either throws, the Builder is unchanged.
\<close>

theorem store_range_errors:
  "(0 \<le> len \<longrightarrow>
      ((\<exists>b'. storeUint v len b = Inl (RangeError, b')) \<longleftrightarrow> (v < 0 \<or> v \<ge> 2 ^ nat len)))
   \<and> (1 \<le> len \<longrightarrow>
      ((\<exists>b'. storeInt v len b = Inl (RangeError, b')) \<longleftrightarrow>
         (v < - (2 ^ nat (len - 1)) \<or> v \<ge> 2 ^ nat (len - 1))))
   \<and> (\<forall>e b'. storeUint v len b = Inl (e, b') \<longrightarrow> b' = b)
   \<and> (\<forall>e b'. storeInt v len b = Inl (e, b') \<longrightarrow> b' = b)"
  by (auto simp add: storeUint_eq storeInt_eq split: if_splits)

theorem store_range_errors_witness:
  "(0::int) \<le> 8 \<and> (1::int) \<le> 8
   \<and> storeUint (2 ^ 8) 8 (new_Builder 1023) = Inl (RangeError, new_Builder 1023)
   \<and> storeInt (2 ^ 7) 8 (new_Builder 1023) = Inl (RangeError, new_Builder 1023)
   \<and> storeInt (- (2 ^ 7)) 8 (new_Builder 1023) \<noteq> Inl (RangeError, new_Builder 1023)
   \<and> storeUint (2 ^ 8 - 1) 8 (new_Builder 1023) \<noteq> Inl (RangeError, new_Builder 1023)"
  using store_range_errors [of 8 "2 ^ 8" "new_Builder 1023"]
    store_range_errors [of 8 "2 ^ 7" "new_Builder 1023"]
    store_range_errors [of 8 "- (2 ^ 7)" "new_Builder 1023"]
    store_range_errors [of 8 "2 ^ 8 - 1" "new_Builder 1023"]
  by auto

section \<open>Numbers and integers: storing and loading\<close>

lemma f64_round_exact:
  assumes "\<bar>x\<bar> < 2 ^ 53"
  shows "f64_round x = Finite x"
proof -
  have n: "nat \<bar>x\<bar> < 2 ^ 53" using assms by (simp add: nat_less_iff)
  have "(2::nat) ^ 53 \<le> 2 ^ 1024" by (rule power_increasing) simp_all
  then have big: "\<not> (2::nat) ^ 1024 \<le> nat \<bar>x\<bar>" using n by linarith
  have "sgn x * int (nat \<bar>x\<bar>) = x" by (simp add: sgn_if)
  then show ?thesis
    unfolding f64_round_def Let_def using n big by (simp only: if_True if_False)
qed

lemma foldl_bits_value:
  "foldl (\<lambda>acc x. 2 * acc + (if x then 1 else 0)) a bs =
     a * 2 ^ length bs + foldl (\<lambda>acc x. 2 * acc + (if x then 1 else 0)) (0::nat) bs"
proof -
  define G :: "nat \<Rightarrow> bool \<Rightarrow> nat" where "G = (\<lambda>acc x. 2 * acc + (if x then 1 else 0))"
  have "foldl G a bs = a * 2 ^ length bs + foldl G 0 bs"
  proof (induction bs arbitrary: a)
    case Nil
    then show ?case by simp
  next
    case (Cons x xs)
    have "foldl G a (x # xs) = foldl G (G a x) xs" by simp
    also have "\<dots> = G a x * 2 ^ length xs + foldl G 0 xs" by (rule Cons)
    finally have l: "foldl G a (x # xs) = G a x * 2 ^ length xs + foldl G 0 xs" .
    have "foldl G 0 (x # xs) = foldl G (G 0 x) xs" by simp
    also have "\<dots> = G 0 x * 2 ^ length xs + foldl G 0 xs" by (rule Cons)
    finally have r: "foldl G 0 (x # xs) = G 0 x * 2 ^ length xs + foldl G 0 xs" .
    have ga: "G a x = 2 * a + G 0 x" by (simp add: G_def)
    show ?case unfolding l r ga by (simp add: algebra_simps)
  qed
  then show ?thesis by (simp add: G_def)
qed

lemma bits_value_Nil [simp]: "bits_value [] = 0"
  by (simp add: bits_value_def)

lemma bits_value_Cons:
  "bits_value (x # bs) = (if x then 2 ^ length bs else 0) + bits_value bs"
  using foldl_bits_value [of "if x then 1 else 0" bs] by (simp add: bits_value_def)

lemma bits_value_less: "bits_value bs < 2 ^ length bs"
  by (induction bs) (simp_all add: bits_value_Cons)

lemma reduce_step:
  assumes "length xs < 53"
  shows "number_add (number_mul (Finite (if x then 1 else 0)) (number_pow2 (length xs)))
           (Finite (int (bits_value (rev xs)))) =
         Finite (int (bits_value (x # rev xs)))"
proof -
  have p: "(2::int) ^ length xs < 2 ^ 53"
    by (rule power_strict_increasing) (use assms in simp_all)
  have a: "(2::int) ^ length xs \<le> 2 ^ 52"
    using assms by (intro power_increasing) simp_all
  have "bits_value (rev xs) < 2 ^ length xs"
    using bits_value_less [of "rev xs"] by simp
  then have "int (bits_value (rev xs)) < int (2 ^ length xs)"
    by (simp only: of_nat_less_iff)
  then have b: "int (bits_value (rev xs)) < 2 ^ length xs" by simp
  have e: "(2::int) ^ 53 = 2 * 2 ^ 52" by simp
  have s: "2 ^ length xs + int (bits_value (rev xs)) < 2 ^ 53"
    unfolding e using a b by linarith
  have pw: "number_pow2 (length xs) = Finite (2 ^ length xs)"
    using assms by (simp add: number_pow2_def)
  show ?thesis
  proof (cases x)
    case True
    have "\<bar>(2::int) ^ length xs\<bar> < 2 ^ 53" using p by simp
    then have m: "f64_round (2 ^ length xs) = Finite (2 ^ length xs)" by (rule f64_round_exact)
    have "0 \<le> 2 ^ length xs + int (bits_value (rev xs))" by simp
    then have "\<bar>2 ^ length xs + int (bits_value (rev xs))\<bar> =
               2 ^ length xs + int (bits_value (rev xs))" by (rule abs_of_nonneg)
    then have "\<bar>2 ^ length xs + int (bits_value (rev xs))\<bar> < 2 ^ 53" using s by (simp only:)
    then have "f64_round (2 ^ length xs + int (bits_value (rev xs))) =
               Finite (2 ^ length xs + int (bits_value (rev xs)))" by (rule f64_round_exact)
    then show ?thesis using True m by (simp add: pw bits_value_Cons)
  next
    case False
    have m: "f64_round 0 = Finite 0" by (rule f64_round_exact) simp
    have "int (bits_value (rev xs)) < 2 ^ 53" unfolding e using a b by linarith
    then have "\<bar>int (bits_value (rev xs))\<bar> < 2 ^ 53" by (simp only: abs_of_nat)
    then have "f64_round (int (bits_value (rev xs))) = Finite (int (bits_value (rev xs)))"
      by (rule f64_round_exact)
    then show ?thesis using False m by (simp add: pw bits_value_Cons)
  qed
qed

lemma reduce_foldl_exact:
  "length xs \<le> 53 \<Longrightarrow>
     foldl (\<lambda>acc (x, i). number_add (number_mul (Finite (if x then 1 else 0)) (number_pow2 i)) acc)
       (Finite 0) (zip xs [0..<length xs]) = Finite (int (bits_value (rev xs)))"
proof (induction xs rule: rev_induct)
  case Nil
  then show ?case by simp
next
  case (snoc x xs)
  then have l: "length xs < 53" by simp
  have z: "zip (xs @ [x]) [0..<length (xs @ [x])] = zip xs [0..<length xs] @ [(x, length xs)]"
    by simp
  show ?case
    unfolding z using snoc l by (simp add: reduce_step)
qed

lemma reduce_bits_exact:
  "length bs \<le> 53 \<Longrightarrow> reduce_bits bs = Finite (int (bits_value bs))"
  using reduce_foldl_exact [of "rev bs"] by (simp add: reduce_bits_def)

lemma number_bits_Suc: "number_bits v (Suc n) = bit v n # number_bits v n"
  by (simp add: number_bits_def bit_iff_odd_drop_bit and_one_eq mod_2_eq_odd)

lemma number_bits_0_4: "number_bits 0 4 = [False, False, False, False]"
proof -
  have "(4::nat) = Suc (Suc (Suc (Suc 0)))" by simp
  then show ?thesis by (simp only: number_bits_Suc) (simp add: number_bits_def)
qed

lemma bits_value_number_bits: "int (bits_value (number_bits v n)) = take_bit n v"
proof (induction n)
  case 0
  then show ?case by (simp add: number_bits_def)
next
  case (Suc n)
  then show ?case
    by (simp add: number_bits_Suc bits_value_Cons take_bit_Suc_from_most)
qed


lemma int32_shl1_small:
  assumes "0 \<le> k" "k < 31"
  shows "int32_shl1 k = 2 ^ nat k"
proof -
  have k: "k mod 32 = k" using assms by simp
  have lt: "(2::int) ^ nat k < 2 ^ 31"
    by (rule power_strict_increasing) (use assms in simp_all)
  have "push_bit (nat k) (1 :: 32 word) = word_of_int (2 ^ nat k)"
    by (simp add: push_bit_eq_mult)
  then have "sint (push_bit (nat k) (1 :: 32 word)) =
             (2 ^ nat k + 2 ^ 31) mod 2 ^ 32 - 2 ^ 31"
    by (simp only: int_word_sint) simp
  also have "(2 ^ nat k + 2 ^ 31) mod 2 ^ 32 = (2::int) ^ nat k + 2 ^ 31"
    by (rule mod_pos_pos_trivial) (use lt in simp_all)
  finally show ?thesis by (simp add: int32_shl1_def k)
qed

lemma take_bit_in_range:
  fixes v :: int
  assumes "0 \<le> v" "v < 2 ^ n"
  shows "take_bit n v = v"
  using assms by (simp add: take_bit_eq_mod)

lemma take_bit_negative:
  fixes v :: int
  assumes "v < 0" "- (2 ^ n) \<le> v"
  shows "take_bit n v = v + 2 ^ n"
proof -
  have "take_bit n v = (v + 2 ^ n) mod 2 ^ n" by (simp add: take_bit_eq_mod)
  also have "\<dots> = v + 2 ^ n" by (rule mod_pos_pos_trivial) (use assms in simp_all)
  finally show ?thesis .
qed

lemma to_signed_take_bit:
  assumes "1 \<le> len" "len \<le> 31" "- (2 ^ nat (len - 1)) \<le> v" "v < 2 ^ nat (len - 1)"
  shows "to_signed len (Finite (take_bit (nat len) v)) = Finite v"
proof -
  let ?h = "(2::int) ^ nat (len - 1)"
  have sh: "int32_shl1 (len - 1) = ?h"
    by (rule int32_shl1_small) (use assms in simp_all)
  have n: "nat len = Suc (nat (len - 1))" using assms by simp
  have p: "(2::int) ^ nat len = 2 * ?h" by (simp add: n)
  have hp: "0 < ?h" by simp
  have "?h \<le> 2 ^ 30" by (rule power_increasing) (use assms in simp_all)
  then have h30: "?h \<le> 1073741824" by simp
  have "\<bar>?h * 2\<bar> < 2 ^ 53" using h30 by simp
  then have dbl: "f64_round (?h * 2) = Finite (?h * 2)" by (rule f64_round_exact)
  show ?thesis
  proof (cases "v < 0")
    case True
    have "- (2 ^ nat len) \<le> v" using assms(3) p hp by linarith
    then have t: "take_bit (nat len) v = v + 2 * ?h"
      using True take_bit_negative [of v "nat len"] p by simp
    have ge: "v + 2 * ?h \<ge> ?h" using assms(3) by linarith
    have "\<bar>v\<bar> < 2 ^ 53" using True assms(3) h30 by simp
    then have "f64_round v = Finite v" by (rule f64_round_exact)
    then show ?thesis
      using ge by (simp add: to_signed_def Let_def sh t dbl number_sub_def)
  next
    case False
    have "v < 2 ^ nat len" using assms(4) p hp by linarith
    then have t: "take_bit (nat len) v = v"
      using False take_bit_in_range [of v "nat len"] by simp
    show ?thesis
      using assms(4) by (simp add: to_signed_def Let_def sh t)
  qed
qed

lemma loadBits_all:
  assumes "0 < length xs"
  shows "loadBits (int (length xs)) \<lparr>slice_bits = xs, slice_refs = rs\<rparr> =
           Inr (xs, \<lparr>slice_bits = [], slice_refs = rs\<rparr>)"
  using assms by (simp add: loadBits_def)

lemma skip_prefix:
  "skip (int (length xs)) (new_Slice (xs @ ys) rs) = Inr ((), \<lparr>slice_bits = ys, slice_refs = rs\<rparr>)"
  by (simp add: skip_def new_Slice_def)

lemma reduce_bits_Cons:
  "reduce_bits (x # bs) =
     number_add (number_mul (Finite (if x then 1 else 0)) (number_pow2 (length bs))) (reduce_bits bs)"
proof -
  have "zip (rev bs @ [x]) [0..<Suc (length bs)] = zip (rev bs) [0..<length bs] @ [(x, length bs)]"
    by simp
  then show ?thesis by (simp add: reduce_bits_def)
qed

lemma int32_shl1_31: "int32_shl1 31 = - 2147483648"
  by (simp add: int32_shl1_def)

lemma bit_length_eq:
  "2 ^ k \<le> n \<Longrightarrow> n < 2 ^ Suc k \<Longrightarrow> bit_length n = Suc k"
proof (induction k arbitrary: n)
  case 0
  then have "n = 1" by simp
  then show ?case by (simp add: bit_length.simps [of "Suc 0"] bit_length.simps [of 0])
next
  case (Suc k)
  have "2 ^ k \<le> n div 2" using Suc.prems(1) by simp
  moreover have "n div 2 < 2 ^ Suc k" using Suc.prems(2) by simp
  ultimately have "bit_length (n div 2) = Suc k" by (rule Suc.IH)
  moreover have "n \<noteq> 0"
  proof
    assume "n = 0"
    then show False using Suc.prems(1) by simp
  qed
  ultimately show ?case by (simp add: bit_length.simps [of n])
qed

lemma bit_length_54: "bit_length 9007199254740993 = 54" "bit_length 9007199254740992 = 54"
  using bit_length_eq [of 53 9007199254740993] bit_length_eq [of 53 9007199254740992]
  by simp_all

lemma f64_round_tie: "f64_round 9007199254740993 = Finite 9007199254740992"
  by (simp add: f64_round_def Let_def bit_length_54)

lemma f64_round_2_53: "f64_round 9007199254740992 = Finite 9007199254740992"
  by (simp add: f64_round_def Let_def bit_length_54)

lemma loadBits_whole:
  assumes "0 < n" "length xs = n"
  shows "loadBits (int n) (parse (Cell xs rs ex)) = Inr (xs, new_Slice [] rs)"
  using assms by (simp add: loadBits_def parse_def new_Slice_def)

text \<open>
  C5, as amended. For a width from 1 to 53 and a value \<open>0 \<le> v < 2 ^ len\<close> that fits
  the Builder, \<open>storeUint\<close> returns, and \<open>loadUint\<close> on a Slice over the resulting
  cell (after the bits the Builder held before) returns \<open>v\<close> exactly and consumes just
  these bits. For a width from 1 to 31 and \<open>- 2 ^ (len - 1) \<le> v < 2 ^ (len - 1)\<close>, the
  same holds of \<open>storeInt\<close> and \<open>loadInt\<close>, the boundary values included.
\<close>

theorem store_load_number:
  assumes "1 \<le> len" and "len \<le> remainder b"
  shows "(len \<le> 53 \<and> 0 \<le> v \<and> v < 2 ^ nat len \<longrightarrow>
            (\<exists>b'. storeUint v len b = Inr b'
               \<and> bindS (skip (int (length (builder_bits b))) (parse (cell b'))) (\<lambda>u. loadUint len) =
                   Inr (Finite v, new_Slice [] (builder_refs b))))
       \<and> (len \<le> 31 \<and> - (2 ^ nat (len - 1)) \<le> v \<and> v < 2 ^ nat (len - 1) \<longrightarrow>
            (\<exists>b'. storeInt v len b = Inr b'
               \<and> bindS (skip (int (length (builder_bits b))) (parse (cell b'))) (\<lambda>u. loadInt len) =
                   Inr (Finite v, new_Slice [] (builder_refs b))))"
proof -
  let ?b' = "b\<lparr>builder_bits := builder_bits b @ number_bits v (nat len)\<rparr>"
  have l: "int (length (number_bits v (nat len))) = len" using assms(1) by simp
  have pos: "0 < length (number_bits v (nat len))" using assms(1) by simp
  have sk: "skip (int (length (builder_bits b))) (parse (cell ?b')) =
              Inr ((), \<lparr>slice_bits = number_bits v (nat len), slice_refs = builder_refs b\<rparr>)"
    using skip_prefix [of "builder_bits b" "number_bits v (nat len)" "builder_refs b"]
    by (simp add: parse_def cell_def)
  have lb: "loadBits len \<lparr>slice_bits = number_bits v (nat len), slice_refs = builder_refs b\<rparr> =
              Inr (number_bits v (nat len), \<lparr>slice_bits = [], slice_refs = builder_refs b\<rparr>)"
    using loadBits_all [OF pos, of "builder_refs b"] by (simp only: l)
  have lu: "len \<le> 53 \<Longrightarrow>
            loadUint len \<lparr>slice_bits = number_bits v (nat len), slice_refs = builder_refs b\<rparr> =
              Inr (Finite (take_bit (nat len) v), new_Slice [] (builder_refs b))"
    using assms(1)
    by (simp add: loadUint_def lb bindS_def reduce_bits_exact bits_value_number_bits new_Slice_def)
  have u: "storeUint v len b = Inr ?b'
           \<and> bindS (skip (int (length (builder_bits b))) (parse (cell ?b'))) (\<lambda>u. loadUint len) =
                   Inr (Finite v, new_Slice [] (builder_refs b))"
    if "len \<le> 53" "0 \<le> v" "v < 2 ^ nat len"
    using that assms lu take_bit_in_range [of v "nat len"]
    by (simp add: storeUint_eq sk bindS_def)
  have i: "storeInt v len b = Inr ?b'
           \<and> bindS (skip (int (length (builder_bits b))) (parse (cell ?b'))) (\<lambda>u. loadInt len) =
                   Inr (Finite v, new_Slice [] (builder_refs b))"
    if "len \<le> 31" "- (2 ^ nat (len - 1)) \<le> v" "v < 2 ^ nat (len - 1)"
    using that assms lu to_signed_take_bit [of len v]
    by (simp add: storeInt_eq sk bindS_def loadInt_def)
  show ?thesis using u i by blast
qed

theorem store_load_number_witness:
  "(1::int) \<le> 8 \<and> 8 \<le> remainder (new_Builder 1023)
   \<and> storeUint 255 8 (new_Builder 1023) =
        Inr \<lparr>builder_size = 1023, builder_bits = number_bits 255 8, builder_refs = []\<rparr>
   \<and> bindS (skip 0 (parse (cell \<lparr>builder_size = 1023, builder_bits = number_bits 255 8,
                                   builder_refs = []\<rparr>))) (\<lambda>u. loadUint 8) =
        Inr (Finite 255, new_Slice [] [])
   \<and> storeInt (- 128) 8 (new_Builder 1023) =
        Inr \<lparr>builder_size = 1023, builder_bits = number_bits (- 128) 8, builder_refs = []\<rparr>
   \<and> bindS (skip 0 (parse (cell \<lparr>builder_size = 1023, builder_bits = number_bits (- 128) 8,
                                   builder_refs = []\<rparr>))) (\<lambda>u. loadInt 8) =
        Inr (Finite (- 128), new_Slice [] [])"
  using store_load_number [of 8 "new_Builder 1023" 255]
    store_load_number [of 8 "new_Builder 1023" "- 128"]
  by (simp add: storeUint_eq storeInt_eq new_Builder_def remainder_def)

text \<open>
  C5, the claim as stated fails. Width 0: \<open>storeUint 0 0\<close> stores nothing and
  \<open>loadUint 0\<close> throws (\<^verbatim>\<open>size <= 0\<close>). Width 32: \<^verbatim>\<open>1 << 31\<close> is negative, and
  \<open>loadInt 32\<close> after \<open>storeInt 5 32\<close> returns \<open>5 + 2 ^ 32\<close>. Width 54: the sum is a
  float, and \<open>loadUint 54\<close> after \<open>storeUint (2 ^ 53 + 1) 54\<close> returns \<open>2 ^ 53\<close>.
\<close>

theorem store_load_number_counterexample:
  "storeUint 0 0 (new_Builder 1023) = Inr (new_Builder 1023)
   \<and> loadUint 0 (parse (cell (new_Builder 1023))) =
        Inl (BitOverflow, parse (cell (new_Builder 1023)))
   \<and> storeInt 5 32 (new_Builder 1023) =
        Inr \<lparr>builder_size = 1023, builder_bits = number_bits 5 32, builder_refs = []\<rparr>
   \<and> loadInt 32 (parse (cell \<lparr>builder_size = 1023, builder_bits = number_bits 5 32,
                                 builder_refs = []\<rparr>)) =
        Inr (Finite 4294967301, new_Slice [] [])
   \<and> storeUint 9007199254740993 54 (new_Builder 1023) =
        Inr \<lparr>builder_size = 1023, builder_bits = number_bits 9007199254740993 54,
             builder_refs = []\<rparr>
   \<and> loadUint 54 (parse (cell \<lparr>builder_size = 1023,
                                 builder_bits = number_bits 9007199254740993 54,
                                 builder_refs = []\<rparr>)) =
        Inr (Finite 9007199254740992, new_Slice [] [])"
proof -
  have a: "storeUint 0 0 (new_Builder 1023) = Inr (new_Builder 1023)"
    by (simp add: storeUint_eq new_Builder_def remainder_def number_bits_def)
  have b: "loadUint 0 (parse (cell (new_Builder 1023))) =
             Inl (BitOverflow, parse (cell (new_Builder 1023)))"
    by (simp add: loadUint_def loadBits_def bindS_def)
  have c: "storeInt 5 32 (new_Builder 1023) =
             Inr \<lparr>builder_size = 1023, builder_bits = number_bits 5 32, builder_refs = []\<rparr>"
    by (simp add: storeInt_eq new_Builder_def remainder_def)
  have r5: "reduce_bits (number_bits 5 32) = Finite 5"
    using bits_value_number_bits [of 5 32] by (simp add: reduce_bits_exact take_bit_eq_mod)
  have e1: "f64_round (- 4294967296) = Finite (- 4294967296)" by (rule f64_round_exact) simp
  have e2: "f64_round 4294967301 = Finite 4294967301" by (rule f64_round_exact) simp
  have s5: "to_signed 32 (Finite 5) = Finite 4294967301"
    by (simp add: to_signed_def int32_shl1_31 number_sub_def e1 e2)
  have d: "loadInt 32 (parse (cell \<lparr>builder_size = 1023, builder_bits = number_bits 5 32,
                                      builder_refs = []\<rparr>)) =
             Inr (Finite 4294967301, new_Slice [] [])"
    using loadBits_whole [of 32 "number_bits 5 32" "[]" False]
    by (simp add: loadInt_def loadUint_def bindS_def cell_def r5 s5)
  have e: "storeUint 9007199254740993 54 (new_Builder 1023) =
        Inr \<lparr>builder_size = 1023, builder_bits = number_bits 9007199254740993 54,
             builder_refs = []\<rparr>"
    by (simp add: storeUint_eq new_Builder_def remainder_def)
  have nb: "number_bits 9007199254740993 54 = True # number_bits 9007199254740993 53"
    using number_bits_Suc [of 9007199254740993 53] by (simp add: bit_iff_odd)
  have lo: "reduce_bits (number_bits 9007199254740993 53) = Finite 1"
    using bits_value_number_bits [of 9007199254740993 53]
    by (simp add: reduce_bits_exact take_bit_eq_mod)
  note e3 = f64_round_2_53
  have hi: "reduce_bits (number_bits 9007199254740993 54) = Finite 9007199254740992"
    by (simp add: nb reduce_bits_Cons lo number_pow2_def e3 f64_round_tie)
  have f: "loadUint 54 (parse (cell \<lparr>builder_size = 1023,
                                 builder_bits = number_bits 9007199254740993 54,
                                 builder_refs = []\<rparr>)) =
        Inr (Finite 9007199254740992, new_Slice [] [])"
    using loadBits_whole [of 54 "number_bits 9007199254740993 54" "[]" False]
    by (simp add: loadUint_def bindS_def cell_def hi)
  show ?thesis using a b c d e f by (simp only: simp_thms)
qed

section \<open>Addresses and coins: storing and loading\<close>

lemma bitsToInt8_number_bits:
  assumes "- 128 \<le> w" "w < 128"
  shows "bitsToInt8 (number_bits w 8) = w"
proof -
  have "word_of_nat (bits_value (number_bits w 8)) = (word_of_int (take_bit 8 w) :: 8 word)"
    using bits_value_number_bits [of w 8] by (metis of_int_of_nat_eq)
  then have "bitsToInt8 (number_bits w 8) = (w mod 256 + 128) mod 256 - 128"
    by (simp add: bitsToInt8_def int_word_sint take_bit_eq_mod)
  also have "(w mod 256 + 128) mod 256 = (w + 128) mod 256"
    by (simp add: mod_add_left_eq)
  also have "\<dots> = w + 128"
    by (rule mod_pos_pos_trivial) (use assms in simp_all)
  finally show ?thesis by simp
qed

lemma byte_of_number_bits:
  fixes w :: "8 word"
  shows "word_of_nat (bits_value (number_bits (uint w) 8)) = w"
proof -
  have "uint w < 2 ^ LENGTH(8)" by (rule uint_lt2p)
  then have "take_bit 8 (uint w) = uint w"
    by (intro take_bit_in_range) simp_all
  then have "int (bits_value (number_bits (uint w) 8)) = uint w"
    by (simp add: bits_value_number_bits)
  then have "(word_of_int (int (bits_value (number_bits (uint w) 8))) :: 8 word) = w"
    by simp
  then show ?thesis by simp
qed

lemma bytes_of_bits_concat:
  fixes ws :: "8 word list"
  shows "bytes_of_bits (concat (map (\<lambda>w. number_bits (uint w) 8) ws)) = ws"
proof (induction ws)
  case Nil
  then show ?case by (simp add: bytes_of_bits.simps [of "[]"])
next
  case (Cons w ws)
  let ?rest = "concat (map (\<lambda>w. number_bits (uint w) 8) ws)"
  have "bytes_of_bits (number_bits (uint w) 8 @ ?rest) =
          word_of_nat (bits_value (number_bits (uint w) 8)) # bytes_of_bits ?rest"
    by (subst bytes_of_bits.simps) simp
  then show ?case using Cons by (simp add: byte_of_number_bits)
qed

lemma decode_address_eq:
  assumes "length W = 8" "length H = 256"
  shows "decode_address (f1 # f2 # a # W @ H) = Address_of_raw (bitsToInt8 W) H"
  using assms by (simp add: decode_address_def js_splice_def)

lemma every_eq_flags:
  "every_eq [x, y] [False, False] = (\<not> x \<and> \<not> y)"
  "every_eq [x, y] [True, False] = (x \<and> \<not> y)"
  by (auto simp add: every_eq_def upt_rec [of 0] upt_rec [of 1])


lemma loadAddress_none:
  "loadAddress \<lparr>slice_bits = [False, False], slice_refs = rs\<rparr> =
     Inr (None, \<lparr>slice_bits = [], slice_refs = rs\<rparr>)"
  by (simp add: loadAddress_def preloadBits_def bindS_def every_eq_flags skip_def)

lemma loadAddress_some:
  assumes "length W = 8" "length H = 256"
  shows "loadAddress \<lparr>slice_bits = True # False # a # W @ H, slice_refs = rs\<rparr> =
           Inr (Some (Address_of_raw (bitsToInt8 W) H), \<lparr>slice_bits = [], slice_refs = rs\<rparr>)"
proof -
  let ?s = "\<lparr>slice_bits = True # False # a # W @ H, slice_refs = rs\<rparr>"
  have p2: "preloadBits 2 ?s = Inr ([True, False], ?s)"
    by (simp add: preloadBits_def)
  have p267: "preloadBits 267 ?s = Inr (True # False # a # W @ H, ?s)"
    using assms by (simp add: preloadBits_def)
  have sk: "skip 267 ?s = Inr ((), \<lparr>slice_bits = [], slice_refs = rs\<rparr>)"
    using assms by (simp add: skip_def)
  show ?thesis
    using assms
    by (simp add: loadAddress_def p2 p267 sk bindS_def every_eq_flags decode_address_eq)
qed

lemma reduce_bits_number_bits:
  assumes "n \<le> 53" "0 \<le> v" "v < 2 ^ n"
  shows "reduce_bits (number_bits v n) = Finite v"
  using assms by (simp add: reduce_bits_exact bits_value_number_bits take_bit_in_range)

lemma loadCoins_zero:
  "loadCoins \<lparr>slice_bits = number_bits 0 4, slice_refs = rs\<rparr> =
     Inr (0, \<lparr>slice_bits = [], slice_refs = rs\<rparr>)"
proof -
  let ?s = "\<lparr>slice_bits = number_bits 0 4, slice_refs = rs\<rparr>"
  have "reduce_bits (number_bits 0 4) = Finite 0"
    by (rule reduce_bits_number_bits) simp_all
  then have "preloadUint 4 ?s = Inr (Finite 0, ?s)"
    by (simp add: preloadUint_def preloadBits_def bindS_def)
  then show ?thesis by (simp add: loadCoins_def bindS_def skip_def)
qed

lemma loadCoins_positive:
  assumes "0 < len" "len < 16" "0 \<le> c" "c < 2 ^ (len * 8)"
  shows "loadCoins \<lparr>slice_bits = number_bits (int len) 4 @ number_bits c (len * 8),
                     slice_refs = rs\<rparr> =
           Inr (c, \<lparr>slice_bits = [], slice_refs = rs\<rparr>)"
proof -
  let ?bs = "number_bits (int len) 4 @ number_bits c (len * 8)"
  let ?s = "\<lparr>slice_bits = ?bs, slice_refs = rs\<rparr>"
  have "reduce_bits (number_bits (int len) 4) = Finite (int len)"
    by (rule reduce_bits_number_bits) (use assms in simp_all)
  then have pu: "preloadUint 4 ?s = Inr (Finite (int len), ?s)"
    by (simp add: preloadUint_def preloadBits_def bindS_def)
  have m: "f64_round (int len * 8) = Finite (int len * 8)"
    by (rule f64_round_exact) (use assms in simp)
  have a: "f64_round (4 + int len * 8) = Finite (4 + int len * 8)"
    by (rule f64_round_exact) (use assms in simp)
  have n: "nat (4 + int len * 8) = 4 + len * 8" by (simp add: nat_add_distrib nat_mult_distrib)
  have pb: "preloadBits (4 + int len * 8) ?s = Inr (?bs, ?s)"
    by (simp add: preloadBits_def n)
  have hx: "fst (js_splice ?bs 4 (length ?bs - 4)) = number_bits c (len * 8)"
    by (simp add: js_splice_def)
  have "int (bits_value (number_bits c (len * 8))) = c"
    using assms by (simp add: bits_value_number_bits take_bit_in_range)
  then have cv: "Coins_of_bits (number_bits c (len * 8)) = c"
    by (simp add: Coins_of_bits_def)
  have sk: "skip (4 + int len * 8) ?s = Inr ((), \<lparr>slice_bits = [], slice_refs = rs\<rparr>)"
    by (simp add: skip_def n)
  show ?thesis
    using assms(1)
    by (simp add: loadCoins_def pu bindS_def m a pb hx cv sk Let_def del: length_append)
qed

text \<open>
  C6. \<open>loadAddress\<close> on a Slice over the cell produced after \<open>storeAddress\<close> (after
  the bits the Builder held before) returns the no-address marker for \<^verbatim>\<open>null\<close>, and for
  an address with an 8-bit signed workchain and a 32-byte hash it returns that workchain
  and that hash; in both cases it consumes just the address's bits. \<open>storeAddress\<close>
  returns when 2 bits, respectively 267 bits, remain. The decoding helpers are the
  specification's.
\<close>

theorem store_load_address:
  "(2 \<le> remainder b \<longrightarrow>
      (\<exists>b'. storeAddress None b = Inr b'
         \<and> bindS (skip (int (length (builder_bits b))) (parse (cell b'))) (\<lambda>u. loadAddress) =
             Inr (None, new_Slice [] (builder_refs b))))
   \<and> (valid_address a \<and> 267 \<le> remainder b \<longrightarrow>
      (\<exists>b'. storeAddress (Some a) b = Inr b'
         \<and> bindS (skip (int (length (builder_bits b))) (parse (cell b'))) (\<lambda>u. loadAddress) =
             Inr (Some a, new_Slice [] (builder_refs b))))"
proof -
  have n: "storeAddress None b = Inr (b\<lparr>builder_bits := builder_bits b @ [False, False]\<rparr>)
           \<and> bindS (skip (int (length (builder_bits b)))
                 (parse (cell (b\<lparr>builder_bits := builder_bits b @ [False, False]\<rparr>))))
               (\<lambda>u. loadAddress) = Inr (None, new_Slice [] (builder_refs b))"
    if "2 \<le> remainder b"
    using that skip_prefix [of "builder_bits b" "[False, False]" "builder_refs b"]
    by (simp add: storeAddress_None_eq parse_def cell_def bindS_def loadAddress_none new_Slice_def)
  have s: "storeAddress (Some a) b =
             Inr (b\<lparr>builder_bits := builder_bits b @ [True, False] @ [False] @
                     number_bits (workchain a) 8 @
                     concat (map (\<lambda>w. number_bits (uint w) 8) (hash a))\<rparr>)
           \<and> bindS (skip (int (length (builder_bits b)))
                 (parse (cell (b\<lparr>builder_bits := builder_bits b @ [True, False] @ [False] @
                     number_bits (workchain a) 8 @
                     concat (map (\<lambda>w. number_bits (uint w) 8) (hash a))\<rparr>))))
               (\<lambda>u. loadAddress) = Inr (Some a, new_Slice [] (builder_refs b))"
    if v: "valid_address a" and r: "267 \<le> remainder b"
  proof -
    let ?W = "number_bits (workchain a) 8"
    let ?H = "concat (map (\<lambda>w. number_bits (uint w) 8) (hash a))"
    have lw: "length ?W = 8" by simp
    have lh: "length ?H = 256" using v by (simp add: valid_address_def)
    have wc: "bitsToInt8 ?W = workchain a"
      using v by (intro bitsToInt8_number_bits) (simp_all add: valid_address_def)
    have "Address_of_raw (bitsToInt8 ?W) ?H = a"
      by (simp add: Address_of_raw_def wc bytes_of_bits_concat)
    then have la: "loadAddress \<lparr>slice_bits = True # False # False # ?W @ ?H,
                      slice_refs = builder_refs b\<rparr> =
                   Inr (Some a, \<lparr>slice_bits = [], slice_refs = builder_refs b\<rparr>)"
      using loadAddress_some [OF lw lh, of False "builder_refs b"] by simp
    show ?thesis
      using r skip_prefix [of "builder_bits b" "True # False # False # ?W @ ?H" "builder_refs b"]
      by (simp add: storeAddress_Some_eq [OF v] parse_def cell_def bindS_def la new_Slice_def)
  qed
  show ?thesis using n s by blast
qed

theorem store_load_address_witness:
  "valid_address \<lparr>workchain = - 1, hash = replicate 32 (- 1)\<rparr>
   \<and> 2 \<le> remainder (new_Builder 1023) \<and> 267 \<le> remainder (new_Builder 1023)
   \<and> bindS (skip 0 (parse (cell (builder_after
          (storeAddress (Some \<lparr>workchain = - 1, hash = replicate 32 (- 1)\<rparr>) (new_Builder 1023))))))
        (\<lambda>u. loadAddress) =
      Inr (Some \<lparr>workchain = - 1, hash = replicate 32 (- 1)\<rparr>, new_Slice [] [])
   \<and> bindS (skip 0 (parse (cell (builder_after (storeAddress None (new_Builder 1023))))))
        (\<lambda>u. loadAddress) =
      Inr (None, new_Slice [] [])"
proof -
  let ?a = "\<lparr>workchain = - 1, hash = replicate 32 (- 1)\<rparr>"
  have v: "valid_address ?a" by (simp add: valid_address_def)
  have r: "remainder (new_Builder 1023) = 1023" by (simp add: remainder_def new_Builder_def)
  show ?thesis
    using store_load_address [of "new_Builder 1023" ?a] v r
    by (auto simp add: builder_after_def new_Builder_def)
qed

text \<open>
  C7, as amended. \<open>storeCoins\<close> returns for every amount \<open>0 \<le> c < 2 ^ 120\<close> (at most
  15 bytes, the most the 4-bit length holds) when 124 bits remain, and never returns for
  \<open>c \<ge> 2 ^ 120\<close>; whenever it returns, \<open>loadCoins\<close> on a Slice over the resulting cell
  (after the bits the Builder held before) returns \<open>c\<close> exactly; a negative amount is
  rejected with NegativeAmount and the Builder is unchanged; zero is stored as the four
  bits 0000.
\<close>

theorem store_load_coins:
  "(0 \<le> c \<and> c < 2 ^ 120 \<and> 124 \<le> remainder b \<longrightarrow> (\<exists>b'. storeCoins c b = Inr b'))
   \<and> (\<forall>b'. storeCoins c b = Inr b' \<longrightarrow>
         bindS (skip (int (length (builder_bits b))) (parse (cell b'))) (\<lambda>u. loadCoins) =
           Inr (c, new_Slice [] (builder_refs b)))
   \<and> (c < 0 \<longrightarrow> storeCoins c b = Inl (NegativeAmount, b))
   \<and> (2 ^ 120 \<le> c \<longrightarrow> (\<forall>b'. storeCoins c b \<noteq> Inr b'))
   \<and> (4 \<le> remainder b \<longrightarrow>
        storeCoins 0 b = Inr (b\<lparr>builder_bits := builder_bits b @ [False, False, False, False]\<rparr>))"
proof -
  let ?len = "(hex_length (nat c) + 1) div 2"
  have E: "storeCoins 0 b = Inr (b\<lparr>builder_bits := builder_bits b @ [False, False, False, False]\<rparr>)"
    if "4 \<le> remainder b"
    using that by (simp add: storeCoins_eq number_bits_0_4)
  have D: "storeCoins c b \<noteq> Inr b'" if big: "2 ^ 120 \<le> c" for b'
  proof -
    have "\<not> hex_length (nat c) \<le> 30"
    proof
      assume "hex_length (nat c) \<le> 30"
      then have "(16::nat) ^ hex_length (nat c) \<le> 16 ^ 30" by (intro power_increasing) simp_all
      then have "nat c < 16 ^ 30" using hex_length_bound [of "nat c"] by linarith
      then have "c < 2 ^ 120" by simp
      then show False using big by simp
    qed
    then have "16 \<le> ?len" by simp
    moreover have "0 < c" using big by (simp add: less_le_trans [of 0 "2 ^ 120" c])
    ultimately show ?thesis by (simp add: storeCoins_eq Let_def)
  qed
  have A: "\<exists>b'. storeCoins c b = Inr b'" if "0 \<le> c" "c < 2 ^ 120" "124 \<le> remainder b"
  proof (cases "c = 0")
    case True
    then show ?thesis using that by (simp add: storeCoins_eq)
  next
    case False
    have "nat c < 2 ^ 120" using that by (simp add: nat_less_iff)
    also have "(2::nat) ^ 120 = 16 ^ 30" by simp
    finally have "hex_length (nat c) \<le> 30" by (intro hex_length_le) simp_all
    then have "?len \<le> 15" by simp
    then show ?thesis using that False by (simp add: storeCoins_eq Let_def)
  qed
  have B: "bindS (skip (int (length (builder_bits b))) (parse (cell b'))) (\<lambda>u. loadCoins) =
           Inr (c, new_Slice [] (builder_refs b))" if st: "storeCoins c b = Inr b'" for b'
  proof -
    have nn: "0 \<le> c" using st by (auto simp add: storeCoins_eq split: if_splits)
    show ?thesis
    proof (cases "c = 0")
      case True
      then have "b' = b\<lparr>builder_bits := builder_bits b @ number_bits 0 4\<rparr>"
        using st by (auto simp add: storeCoins_eq split: if_splits)
      then show ?thesis
        using True skip_prefix [of "builder_bits b" "number_bits 0 4" "builder_refs b"]
        by (simp add: parse_def cell_def bindS_def loadCoins_zero new_Slice_def)
    next
      case False
      then have pos: "0 < c" using nn by simp
      have b': "b' = b\<lparr>builder_bits := builder_bits b @ number_bits (int ?len) 4 @
                           number_bits c (?len * 8)\<rparr>" and lt: "?len < 16"
        using st pos by (auto simp add: storeCoins_eq Let_def split: if_splits)
      have "int (nat c) < 2 ^ (8 * ?len)" by (rule byte_length_bound)
      then have c: "c < 2 ^ (?len * 8)" using pos by (simp add: mult.commute)
      have l0: "0 < ?len" using hex_length_pos [of "nat c"] by simp
      show ?thesis
        using skip_prefix [of "builder_bits b" "number_bits (int ?len) 4 @ number_bits c (?len * 8)"
            "builder_refs b"]
          loadCoins_positive [OF l0 lt nn c, of "builder_refs b"]
        by (simp add: b' parse_def cell_def bindS_def new_Slice_def)
    qed
  qed
  have C: "storeCoins c b = Inl (NegativeAmount, b)" if "c < 0"
    using that by (simp add: storeCoins_eq)
  show ?thesis using A B C D E by blast
qed

theorem store_load_coins_witness:
  "(0::int) \<le> 256 \<and> (256::int) < 2 ^ 120 \<and> 124 \<le> remainder (new_Builder 1023)
   \<and> storeCoins 256 (new_Builder 1023) =
        Inr \<lparr>builder_size = 1023, builder_bits = number_bits 2 4 @ number_bits 256 16,
             builder_refs = []\<rparr>
   \<and> bindS (skip 0 (parse (cell \<lparr>builder_size = 1023,
               builder_bits = number_bits 2 4 @ number_bits 256 16, builder_refs = []\<rparr>)))
        (\<lambda>u. loadCoins) = Inr (256, new_Slice [] [])
   \<and> storeCoins (- 1) (new_Builder 1023) = Inl (NegativeAmount, new_Builder 1023)
   \<and> storeCoins (2 ^ 120) (new_Builder 1023) \<noteq> Inr (new_Builder 1023)
   \<and> storeCoins 0 (new_Builder 1023) =
        Inr \<lparr>builder_size = 1023, builder_bits = [False, False, False, False],
             builder_refs = []\<rparr>"
proof -
  have h: "hex_length 256 = 3"
    by (simp add: hex_length.simps [of 256] hex_length.simps [of 16] hex_length.simps [of "Suc 0"])
  have s: "storeCoins 256 (new_Builder 1023) =
        Inr \<lparr>builder_size = 1023, builder_bits = number_bits 2 4 @ number_bits 256 16,
             builder_refs = []\<rparr>"
    by (simp add: storeCoins_eq h new_Builder_def remainder_def)
  show ?thesis
    using store_load_coins [of 256 "new_Builder 1023"] store_load_coins [of "- 1" "new_Builder 1023"]
      store_load_coins [of "2 ^ 120" "new_Builder 1023"] s
    by (simp add: new_Builder_def remainder_def)
qed

text \<open>
  C7, the claim as stated fails: the amount \<open>2 ^ 255\<close> needs 32 bytes, and its length
  32 does not fit the 4-bit length field, so \<open>storeCoins\<close> throws RangeError.
\<close>

theorem store_load_coins_counterexample:
  "storeCoins (2 ^ 255) (new_Builder 1023) = Inl (RangeError, new_Builder 1023)"
proof -
  have "\<not> hex_length (2 ^ 255) \<le> 63"
  proof
    assume "hex_length (2 ^ 255) \<le> 63"
    then have "(16::nat) ^ hex_length (2 ^ 255) \<le> 16 ^ 63" by (intro power_increasing) simp_all
    then have "(2::nat) ^ 255 < 16 ^ 63" using hex_length_bound [of "2 ^ 255"] by linarith
    then show False by simp
  qed
  then have h: "64 \<le> hex_length (2 ^ 255)" by simp
  have "hex_length (2 ^ 255) \<le> 64" by (intro hex_length_le) simp_all
  then have "hex_length (2 ^ 255) = 64" using h by simp
  then show ?thesis
    by (simp add: storeCoins_eq Let_def new_Builder_def remainder_def nat_power_eq)
qed

section \<open>Slice: preloading and loading\<close>

lemma preloadRef_same:
  "result_of (preloadRef s) = result_of (loadRef s) \<and> slice_after (preloadRef s) = s"
  by (simp add: preloadRef_def loadRef_def result_of_def slice_after_def split: list.splits)

lemma preloadBit_same:
  "result_of (preloadBit s) = result_of (loadBit s) \<and> slice_after (preloadBit s) = s"
  by (simp add: preloadBit_def loadBit_def result_of_def slice_after_def split: list.splits)

lemma preloadBits_same:
  "result_of (preloadBits n s) = result_of (loadBits n s) \<and> slice_after (preloadBits n s) = s"
  by (simp add: preloadBits_def loadBits_def result_of_def slice_after_def)

lemma preloadUint_same:
  "result_of (preloadUint n s) = result_of (loadUint n s) \<and> slice_after (preloadUint n s) = s"
  by (simp add: preloadUint_def loadUint_def preloadBits_def loadBits_def bindS_def
      result_of_def slice_after_def)

lemma preloadInt_same:
  "result_of (preloadInt n s) = result_of (loadInt n s) \<and> slice_after (preloadInt n s) = s"
  by (simp add: preloadInt_def loadInt_def preloadUint_def loadUint_def preloadBits_def
      loadBits_def bindS_def result_of_def slice_after_def)

lemma preloadBytes_same:
  "result_of (preloadBytes btb n s) = result_of (loadBytes btb n s)
   \<and> slice_after (preloadBytes btb n s) = s"
  by (simp add: preloadBytes_def loadBytes_def preloadBits_def loadBits_def bindS_def
      result_of_def slice_after_def)

lemma preloadString_same:
  "result_of (preloadString btb bts sz s) = result_of (loadString btb bts sz s)
   \<and> slice_after (preloadString btb bts sz s) = s"
  by (simp add: preloadString_def loadString_def preloadBytes_def loadBytes_def preloadBits_def
      loadBits_def bindS_def result_of_def slice_after_def split: option.splits)

lemma preloadAddress_same:
  "result_of (preloadAddress s) = result_of (loadAddress s) \<and> slice_after (preloadAddress s) = s"
  by (simp add: preloadAddress_def loadAddress_def preloadBits_def skip_def bindS_def Let_def
      result_of_def slice_after_def)

lemma preloadCoins_same:
  "result_of (preloadCoins s) = result_of (loadCoins s) \<and> slice_after (preloadCoins s) = s"
  by (simp add: preloadCoins_def loadCoins_def preloadUint_def preloadBits_def skip_def bindS_def
      Let_def result_of_def slice_after_def split: number.splits)

lemma skip_no_longer: "no_longer (slice_after (skip n s)) s"
  by (simp add: skip_def slice_after_def no_longer_def)

lemma loadRef_no_longer: "no_longer (slice_after (loadRef s)) s"
  by (simp add: loadRef_def slice_after_def no_longer_def split: list.splits)

lemma loadBit_no_longer: "no_longer (slice_after (loadBit s)) s"
  by (simp add: loadBit_def slice_after_def no_longer_def split: list.splits)

lemma loadBits_no_longer: "no_longer (slice_after (loadBits n s)) s"
  by (simp add: loadBits_def slice_after_def no_longer_def)

lemma loadUint_no_longer: "no_longer (slice_after (loadUint n s)) s"
  by (simp add: loadUint_def loadBits_def bindS_def slice_after_def no_longer_def)

lemma loadInt_no_longer: "no_longer (slice_after (loadInt n s)) s"
  by (simp add: loadInt_def loadUint_def loadBits_def bindS_def slice_after_def no_longer_def)

lemma loadBytes_no_longer: "no_longer (slice_after (loadBytes btb n s)) s"
  by (simp add: loadBytes_def loadBits_def bindS_def slice_after_def no_longer_def)

lemma loadString_no_longer: "no_longer (slice_after (loadString btb bts sz s)) s"
  by (simp add: loadString_def loadBytes_def loadBits_def bindS_def slice_after_def no_longer_def
      split: option.splits)

lemma loadAddress_no_longer: "no_longer (slice_after (loadAddress s)) s"
  by (simp add: loadAddress_def preloadBits_def skip_def bindS_def Let_def slice_after_def
      no_longer_def)

lemma loadCoins_no_longer: "no_longer (slice_after (loadCoins s)) s"
  by (simp add: loadCoins_def preloadUint_def preloadBits_def skip_def bindS_def Let_def
      slice_after_def no_longer_def split: number.splits)

text \<open>
  C9. Every \<open>preload\<close> operation gives what its \<open>load\<close> counterpart gives on the same
  Slice (the same value, or the same error) and leaves the Slice as it was; after
  \<open>skip\<close> or any \<open>load\<close> operation the Slice has no more bits and no more references
  than before.
\<close>

theorem preload_same_as_load:
  "result_of (preloadRef s) = result_of (loadRef s) \<and> slice_after (preloadRef s) = s
   \<and> result_of (preloadBit s) = result_of (loadBit s) \<and> slice_after (preloadBit s) = s
   \<and> result_of (preloadBits n s) = result_of (loadBits n s) \<and> slice_after (preloadBits n s) = s
   \<and> result_of (preloadInt n s) = result_of (loadInt n s) \<and> slice_after (preloadInt n s) = s
   \<and> result_of (preloadUint n s) = result_of (loadUint n s) \<and> slice_after (preloadUint n s) = s
   \<and> result_of (preloadBytes btb n s) = result_of (loadBytes btb n s)
   \<and> slice_after (preloadBytes btb n s) = s
   \<and> result_of (preloadString btb bts sz s) = result_of (loadString btb bts sz s)
   \<and> slice_after (preloadString btb bts sz s) = s
   \<and> result_of (preloadAddress s) = result_of (loadAddress s) \<and> slice_after (preloadAddress s) = s
   \<and> result_of (preloadCoins s) = result_of (loadCoins s) \<and> slice_after (preloadCoins s) = s
   \<and> no_longer (slice_after (skip n s)) s
   \<and> no_longer (slice_after (loadRef s)) s
   \<and> no_longer (slice_after (loadBit s)) s
   \<and> no_longer (slice_after (loadBits n s)) s
   \<and> no_longer (slice_after (loadInt n s)) s
   \<and> no_longer (slice_after (loadUint n s)) s
   \<and> no_longer (slice_after (loadBytes btb n s)) s
   \<and> no_longer (slice_after (loadString btb bts sz s)) s
   \<and> no_longer (slice_after (loadAddress s)) s
   \<and> no_longer (slice_after (loadCoins s)) s"
  by (simp only: preloadRef_same preloadBit_same preloadBits_same preloadInt_same
      preloadUint_same preloadBytes_same preloadString_same preloadAddress_same
      preloadCoins_same skip_no_longer loadRef_no_longer loadBit_no_longer loadBits_no_longer
      loadInt_no_longer loadUint_no_longer loadBytes_no_longer loadString_no_longer
      loadAddress_no_longer loadCoins_no_longer simp_thms)

section \<open>The message envelope\<close>

lemma seqB_last: "(case r of Inl x \<Rightarrow> Inl x | Inr x \<Rightarrow> seqB [] x) = r"
  by (cases r) simp_all

lemma finish_simps:
  "finish (Inl (e, b)) = Inl e"
  "finish (Inr b) = Inr (cell b)"
  by (simp_all add: finish_def)

lemma storeBit_eq:
  "storeBit x b =
     (if x \<noteq> 0 \<and> x \<noteq> 1 then Inl (InvalidBit, b)
      else if remainder b < 1 then Inl (BitOverflow, b)
      else Inr (b\<lparr>builder_bits := builder_bits b @ [x = 1]\<rparr>))"
  by (simp add: storeBit_def checkBitsOverflow_def)

lemma storeSlice_parse_eq:
  "storeSlice (parse c) b =
     (if int (length (cell_bits c)) > remainder b then Inl (BitOverflow, b)
      else if length (builder_refs b) + length (cell_refs c) > 4 then Inl (RefOverflow, b)
      else Inr (b\<lparr>builder_bits := builder_bits b @ cell_bits c,
                   builder_refs := builder_refs b @ cell_refs c\<rparr>))"
  by (simp add: storeSlice_eq parse_def new_Slice_def)

lemma MessageX_init_Some_eq:
  "MessageX_init (Some c) b =
     (if remainder b < 1 then Inl (BitOverflow, b)
      else if remainder b - 2 \<ge> int (length (cell_bits c)) then
        (if length (builder_refs b) + length (cell_refs c) > 4
         then Inl (RefOverflow, b\<lparr>builder_bits := builder_bits b @ [True, False]\<rparr>)
         else Inr (b\<lparr>builder_bits := builder_bits b @ [True, False] @ cell_bits c,
                      builder_refs := builder_refs b @ cell_refs c\<rparr>))
      else if remainder b < 2 then Inl (BitOverflow, b\<lparr>builder_bits := builder_bits b @ [True]\<rparr>)
      else if length (builder_refs b) \<ge> 4
        then Inl (RefOverflow, b\<lparr>builder_bits := builder_bits b @ [True, True]\<rparr>)
      else Inr (b\<lparr>builder_bits := builder_bits b @ [True, True],
                   builder_refs := builder_refs b @ [c]\<rparr>))"
  by (simp add: MessageX_init_def storeBit_eq storeSlice_parse_eq storeRef_eq)

lemma MessageX_init_None_eq:
  "MessageX_init None b =
     (if remainder b < 1 then Inl (BitOverflow, b)
      else Inr (b\<lparr>builder_bits := builder_bits b @ [False]\<rparr>))"
  by (simp add: MessageX_init_def storeBit_eq)

lemma MessageX_body_Some_eq:
  "MessageX_body (Some c) b =
     (if remainder b \<ge> int (length (cell_bits c)) then
        (if remainder b < 1 then Inl (BitOverflow, b)
         else if int (length (cell_bits c)) > remainder b - 1
           then Inl (BitOverflow, b\<lparr>builder_bits := builder_bits b @ [False]\<rparr>)
         else if length (builder_refs b) + length (cell_refs c) > 4
           then Inl (RefOverflow, b\<lparr>builder_bits := builder_bits b @ [False]\<rparr>)
         else Inr (b\<lparr>builder_bits := builder_bits b @ [False] @ cell_bits c,
                      builder_refs := builder_refs b @ cell_refs c\<rparr>))
      else if remainder b < 1 then Inl (BitOverflow, b)
      else if length (builder_refs b) \<ge> 4
        then Inl (RefOverflow, b\<lparr>builder_bits := builder_bits b @ [True]\<rparr>)
      else Inr (b\<lparr>builder_bits := builder_bits b @ [True],
                   builder_refs := builder_refs b @ [c]\<rparr>))"
  by (simp add: MessageX_body_def storeBit_eq storeSlice_parse_eq storeRef_eq)

lemma MessageX_body_None_eq:
  "MessageX_body None b =
     (if remainder b < 1 then Inl (BitOverflow, b)
      else Inr (b\<lparr>builder_bits := builder_bits b @ [False]\<rparr>))"
  by (simp add: MessageX_body_def storeBit_eq)

lemma MessageX_body_extends:
  assumes "MessageX_body bd b = Inr b'"
  shows "\<exists>xs ys. builder_bits b' = builder_bits b @ xs \<and> builder_refs b' = builder_refs b @ ys"
proof (cases bd)
  case None
  then show ?thesis using assms by (auto simp add: MessageX_body_None_eq split: if_splits)
next
  case (Some c)
  then show ?thesis using assms by (auto simp add: MessageX_body_Some_eq split: if_splits)
qed

lemma finish_extends:
  assumes "finish (MessageX_body bd b) = Inr cl"
  shows "take (length (builder_bits b)) (cell_bits cl) = builder_bits b
       \<and> take (length (builder_refs b)) (cell_refs cl) = builder_refs b"
proof -
  obtain b' where b': "MessageX_body bd b = Inr b'" and cl: "cl = cell b'"
    using assms by (auto simp add: finish_def split: sum.splits prod.splits)
  then show ?thesis
    using MessageX_body_extends [OF b'] by (auto simp add: cell_def)
qed

lemma MessageX_Some_eq:
  assumes "init options = Some c"
  shows "MessageX options =
     (if length (cell_bits (info options)) > 1023 then Inl BitOverflow
      else if length (cell_refs (info options)) > 4 then Inl RefOverflow
      else if length (cell_bits (info options)) \<ge> 1023 then Inl BitOverflow
      else if 1023 - (int (length (cell_bits (info options))) + 1) - 1 \<ge> int (length (cell_bits c)) then
        (if length (cell_refs (info options)) + length (cell_refs c) > 4 then Inl RefOverflow
         else finish (MessageX_body (body options)
                \<lparr>builder_size = 1023,
                  builder_bits = cell_bits (info options) @ [True, False] @ cell_bits c,
                  builder_refs = cell_refs (info options) @ cell_refs c\<rparr>))
      else if length (cell_bits (info options)) \<ge> 1022 then Inl BitOverflow
      else if length (cell_refs (info options)) \<ge> 4 then Inl RefOverflow
      else finish (MessageX_body (body options)
             \<lparr>builder_size = 1023,
               builder_bits = cell_bits (info options) @ [True, True],
               builder_refs = cell_refs (info options) @ [c]\<rparr>))"
  using assms
  by (simp add: MessageX_def storeSlice_parse_eq MessageX_init_Some_eq new_Builder_def
      remainder_def seqB_last finish_simps)

lemma MessageX_None_eq:
  assumes "init options = None"
  shows "MessageX options =
     (if length (cell_bits (info options)) > 1023 then Inl BitOverflow
      else if length (cell_refs (info options)) > 4 then Inl RefOverflow
      else if length (cell_bits (info options)) \<ge> 1023 then Inl BitOverflow
      else finish (MessageX_body (body options)
             \<lparr>builder_size = 1023,
               builder_bits = cell_bits (info options) @ [False],
               builder_refs = cell_refs (info options)\<rparr>))"
  using assms
  by (simp add: MessageX_def storeSlice_parse_eq MessageX_init_None_eq new_Builder_def
      remainder_def seqB_last finish_simps)

text \<open>
  At the boundaries of the two inline tests. When \<open>init\<close>'s bits equal the remaining
  bits minus one, the inline branch fills the Builder and the body's flag bit no longer
  fits; when \<open>body\<close>'s bits equal the remaining bits, the flag bit takes one of them
  and the body's bits no longer fit.
\<close>

lemma MessageX_body_full:
  assumes "remainder b = 0"
  shows "MessageX_body bd b = Inl (BitOverflow, b)"
proof (cases bd)
  case None
  then show ?thesis using assms by (simp add: MessageX_body_None_eq)
next
  case (Some d)
  then show ?thesis using assms by (simp add: MessageX_body_Some_eq)
qed

lemma MessageX_init_boundary:
  assumes "init options = Some c"
    and "int (length (cell_bits c)) = 1023 - (int (length (cell_bits (info options))) + 1) - 1"
    and "length (cell_refs (info options)) + length (cell_refs c) \<le> 4"
  shows "MessageX options = Inl BitOverflow"
proof -
  let ?B = "\<lparr>builder_size = 1023,
              builder_bits = cell_bits (info options) @ [True, False] @ cell_bits c,
              builder_refs = cell_refs (info options) @ cell_refs c\<rparr>"
  have "remainder ?B = 0" using assms(2) by (simp add: remainder_def)
  then have "MessageX_body (body options) ?B = Inl (BitOverflow, ?B)"
    by (rule MessageX_body_full)
  then show ?thesis
    using assms by (simp add: MessageX_Some_eq finish_simps)
qed

lemma MessageX_body_boundary:
  assumes "init options = None" and "body options = Some d"
    and "int (length (cell_bits d)) = 1023 - (int (length (cell_bits (info options))) + 1)"
    and "0 < length (cell_bits d)"
    and "length (cell_refs (info options)) \<le> 4"
  shows "MessageX options = Inl BitOverflow"
  using assms
  by (simp add: MessageX_None_eq MessageX_body_Some_eq remainder_def finish_simps)

text \<open>
  C4. With a non-null \<open>init\<close>, let \<open>r\<close> be the bits that remain after the header's
  bits and the presence bit 1. When \<open>r - 1\<close> is smaller than \<open>init\<close>'s bit length, the
  envelope continues with bit 1 and \<open>init\<close> as a reference; otherwise it continues with
  bit 0 and \<open>init\<close>'s bits and references inline. This is the layout of every cell
  \<open>MessageX\<close> returns, and \<open>MessageX\<close> goes on to the body from exactly that Builder
  when the two bits, respectively the references, fit.
\<close>

theorem MessageX_init_placement:
  assumes "init options = Some c"
  shows
    "(\<forall>cl. MessageX options = Inr cl \<longrightarrow>
        (if 1023 - (int (length (cell_bits (info options))) + 1) - 1 < int (length (cell_bits c))
         then take (length (cell_bits (info options)) + 2) (cell_bits cl) =
                cell_bits (info options) @ [True, True]
              \<and> take (length (cell_refs (info options)) + 1) (cell_refs cl) =
                cell_refs (info options) @ [c]
         else take (length (cell_bits (info options)) + 2 + length (cell_bits c)) (cell_bits cl) =
                cell_bits (info options) @ [True, False] @ cell_bits c
              \<and> take (length (cell_refs (info options)) + length (cell_refs c)) (cell_refs cl) =
                cell_refs (info options) @ cell_refs c))
     \<and> (1023 - (int (length (cell_bits (info options))) + 1) - 1 < int (length (cell_bits c))
          \<and> length (cell_bits (info options)) + 2 \<le> 1023
          \<and> length (cell_refs (info options)) < 4 \<longrightarrow>
        MessageX options =
          finish (MessageX_body (body options)
            \<lparr>builder_size = 1023,
              builder_bits = cell_bits (info options) @ [True, True],
              builder_refs = cell_refs (info options) @ [c]\<rparr>))
     \<and> (1023 - (int (length (cell_bits (info options))) + 1) - 1 \<ge> int (length (cell_bits c))
          \<and> length (cell_refs (info options)) + length (cell_refs c) \<le> 4 \<longrightarrow>
        MessageX options =
          finish (MessageX_body (body options)
            \<lparr>builder_size = 1023,
              builder_bits = cell_bits (info options) @ [True, False] @ cell_bits c,
              builder_refs = cell_refs (info options) @ cell_refs c\<rparr>))"
proof -
  let ?ib = "cell_bits (info options)" and ?ir = "cell_refs (info options)"
  let ?Bref = "\<lparr>builder_size = 1023, builder_bits = ?ib @ [True, True],
                 builder_refs = ?ir @ [c]\<rparr>"
  let ?Binl = "\<lparr>builder_size = 1023, builder_bits = ?ib @ [True, False] @ cell_bits c,
                 builder_refs = ?ir @ cell_refs c\<rparr>"
  note eq = MessageX_Some_eq [OF assms]
  have ref: "MessageX options = finish (MessageX_body (body options) ?Bref)"
    if "1023 - (int (length ?ib) + 1) - 1 < int (length (cell_bits c))"
      "length ?ib + 2 \<le> 1023" "length ?ir < 4"
    using that by (simp add: eq)
  have inl: "MessageX options = finish (MessageX_body (body options) ?Binl)"
    if "1023 - (int (length ?ib) + 1) - 1 \<ge> int (length (cell_bits c))"
      "length ?ir + length (cell_refs c) \<le> 4"
    using that by (simp add: eq)
  have ret: "take (length ?ib + 2) (cell_bits cl) = ?ib @ [True, True]
             \<and> take (length ?ir + 1) (cell_refs cl) = ?ir @ [c]"
    if "MessageX options = Inr cl"
      "1023 - (int (length ?ib) + 1) - 1 < int (length (cell_bits c))" for cl
  proof -
    have "finish (MessageX_body (body options) ?Bref) = Inr cl"
      using that by (simp add: eq split: if_splits)
    then show ?thesis using finish_extends [of "body options" ?Bref cl] by simp
  qed
  have ret': "take (length ?ib + 2 + length (cell_bits c)) (cell_bits cl) =
                ?ib @ [True, False] @ cell_bits c
              \<and> take (length ?ir + length (cell_refs c)) (cell_refs cl) = ?ir @ cell_refs c"
    if "MessageX options = Inr cl"
      "\<not> 1023 - (int (length ?ib) + 1) - 1 < int (length (cell_bits c))" for cl
  proof -
    have "finish (MessageX_body (body options) ?Binl) = Inr cl"
      using that by (simp add: eq split: if_splits)
    then show ?thesis
      using finish_extends [of "body options" ?Binl cl] by (simp add: add.assoc)
  qed
  show ?thesis using ref inl ret ret' by (simp only: split: if_splits) blast
qed

theorem MessageX_init_placement_witness:
  "init \<lparr>info = Cell (replicate 1000 False) [] False,
          init = Some (Cell (replicate 30 True) [] False), body = None\<rparr> =
     Some (Cell (replicate 30 True) [] False)
   \<and> MessageX \<lparr>info = Cell (replicate 1000 False) [] False,
                init = Some (Cell (replicate 30 True) [] False), body = None\<rparr> =
       Inr (Cell (replicate 1000 False @ [True, True, False])
              [Cell (replicate 30 True) [] False] False)
   \<and> MessageX \<lparr>info = Cell [False] [] False,
                init = Some (Cell [True, True] [] False), body = None\<rparr> =
       Inr (Cell ([False] @ [True, False] @ [True, True] @ [False]) [] False)"
  using MessageX_init_placement
      [of "\<lparr>info = Cell (replicate 1000 False) [] False,
             init = Some (Cell (replicate 30 True) [] False), body = None\<rparr>"
          "Cell (replicate 30 True) [] False"]
    MessageX_init_placement
      [of "\<lparr>info = Cell [False] [] False,
             init = Some (Cell [True, True] [] False), body = None\<rparr>"
          "Cell [True, True] [] False"]
  by (simp add: MessageX_body_None_eq finish_simps remainder_def cell_def)

text \<open>
  C10. When \<open>init\<close>'s bits pass the inline test and its references, added to the
  header's, exceed four, \<open>MessageX\<close> throws RefOverflow (from the inline
  \<open>storeSlice\<close>): the test compares bit lengths only. The same holds of \<open>body\<close> when
  its bits fit after the flag bit. In the witness the by-reference branch would have fitted.
\<close>

theorem MessageX_inline_refs_overflow:
  "(init options = Some c
      \<and> 1023 - (int (length (cell_bits (info options))) + 1) - 1 \<ge> int (length (cell_bits c))
      \<and> length (cell_refs (info options)) \<le> 4
      \<and> length (cell_refs (info options)) + length (cell_refs c) > 4 \<longrightarrow>
    MessageX options = Inl RefOverflow)
   \<and> (init options = None \<and> body options = Some d
      \<and> 1023 - (int (length (cell_bits (info options))) + 1) - 1 \<ge> int (length (cell_bits d))
      \<and> length (cell_refs (info options)) \<le> 4
      \<and> length (cell_refs (info options)) + length (cell_refs d) > 4 \<longrightarrow>
    MessageX options = Inl RefOverflow)"
proof -
  have a: "MessageX options = Inl RefOverflow"
    if "init options = Some c"
      "1023 - (int (length (cell_bits (info options))) + 1) - 1 \<ge> int (length (cell_bits c))"
      "length (cell_refs (info options)) \<le> 4"
      "length (cell_refs (info options)) + length (cell_refs c) > 4"
    using that by (simp add: MessageX_Some_eq)
  have b: "MessageX options = Inl RefOverflow"
    if "init options = None" "body options = Some d"
      "1023 - (int (length (cell_bits (info options))) + 1) - 1 \<ge> int (length (cell_bits d))"
      "length (cell_refs (info options)) \<le> 4"
      "length (cell_refs (info options)) + length (cell_refs d) > 4"
    using that by (simp add: MessageX_None_eq MessageX_body_Some_eq remainder_def finish_simps)
  show ?thesis using a b by blast
qed

theorem MessageX_inline_refs_overflow_witness:
  "MessageX \<lparr>info = Cell [] [Cell [] [] False, Cell [] [] False, Cell [] [] False] False,
              init = Some (Cell [True] [Cell [] [] False, Cell [] [] False] False),
              body = None\<rparr> = Inl RefOverflow
   \<and> MessageX \<lparr>info = Cell [] [Cell [] [] False, Cell [] [] False, Cell [] [] False] False,
              init = None,
              body = Some (Cell [True] [Cell [] [] False, Cell [] [] False] False)\<rparr> =
       Inl RefOverflow
   \<and> storeRef (Cell [True] [Cell [] [] False, Cell [] [] False] False)
        \<lparr>builder_size = 1023, builder_bits = [True, True],
          builder_refs = [Cell [] [] False, Cell [] [] False, Cell [] [] False]\<rparr> =
       Inr \<lparr>builder_size = 1023, builder_bits = [True, True],
          builder_refs = [Cell [] [] False, Cell [] [] False, Cell [] [] False,
                          Cell [True] [Cell [] [] False, Cell [] [] False] False]\<rparr>"
  using MessageX_inline_refs_overflow
      [of "\<lparr>info = Cell [] [Cell [] [] False, Cell [] [] False, Cell [] [] False] False,
              init = Some (Cell [True] [Cell [] [] False, Cell [] [] False] False),
              body = None\<rparr>"
          "Cell [True] [Cell [] [] False, Cell [] [] False] False"]
    MessageX_inline_refs_overflow
      [of "\<lparr>info = Cell [] [Cell [] [] False, Cell [] [] False, Cell [] [] False] False,
              init = None,
              body = Some (Cell [True] [Cell [] [] False, Cell [] [] False] False)\<rparr>"
          _ "Cell [True] [Cell [] [] False, Cell [] [] False] False"]
  by (simp add: storeRef_eq)

section \<open>The padding codec: proofs\<close>

lemma indexOf_replicate_False: "indexOf (replicate n False @ True # xs) True = int n"
  by (induction n) simp_all

lemma augmentBits_eq:
  "augmentBits bs divider =
     (if length bs mod divider_value divider = 0 then bs
      else bs @ True # replicate (divider_value divider - length bs mod divider_value divider - 1) False)"
proof -
  let ?d = "divider_value divider"
  let ?m = "length bs mod ?d"
  have d: "0 < ?d" by (cases divider) simp_all
  have m: "?m < ?d" using d by simp
  have ov: "map (\<lambda>i. i = 0) [0..<Suc k] = True # replicate k False" for k :: nat
  proof -
    have "map (\<lambda>i. i = 0) [Suc 0..<Suc k] = map ((\<lambda>i. i = 0) \<circ> Suc) [0..<k]"
      by (simp only: map_Suc_upt [symmetric] map_map)
    also have "\<dots> = replicate k False"
      by (simp add: comp_def map_replicate_const)
    finally have tl: "map (\<lambda>i. i = 0) [Suc 0..<Suc k] = replicate k False" .
    have "[0..<Suc k] = 0 # [Suc 0..<Suc k]"
      by (rule upt_conv_Cons) simp
    then have "map (\<lambda>i. i = 0) [0..<Suc k] = True # map (\<lambda>i. i = 0) [Suc 0..<Suc k]"
      by (simp only: list.map) simp
    then show ?thesis by (simp only: tl)
  qed
  show ?thesis
  proof (cases "?m = 0")
    case True
    then show ?thesis by (simp add: augmentBits_def Let_def)
  next
    case False
    then obtain k where k: "?d - ?m = Suc k"
      using m by (metis Suc_diff_Suc diff_Suc_Suc diff_zero less_imp_Suc_add zero_less_diff)
    have "?d - ?m \<noteq> ?d" using False m by simp
    then show ?thesis
      using False k ov [of k] by (simp add: augmentBits_def Let_def)
  qed
qed

lemma rollbackBits_padded:
  assumes "k < 7"
  shows "rollbackBits (bs @ True # replicate k False) = Inr bs"
proof -
  let ?xs = "bs @ True # replicate k False"
  have len: "length ?xs = length bs + Suc k" by simp
  have "length ?xs - 7 \<le> length bs" using assms by simp
  then have "drop (length ?xs - 7) ?xs = drop (length ?xs - 7) bs @ True # replicate k False"
    by simp
  then have "rev (drop (length ?xs - 7) ?xs) =
               replicate k False @ True # rev (drop (length ?xs - 7) bs)"
    by simp
  then have idx: "indexOf (rev (drop (length ?xs - 7) ?xs)) True = int k"
    by (simp only: indexOf_replicate_False)
  have "take (length ?xs - nat (int k + 1)) ?xs = bs"
    by (simp add: nat_add_distrib)
  then show ?thesis
    unfolding rollbackBits_def Let_def idx by simp
qed

text \<open>
  C2, as amended. \<open>augmentBits\<close> returns the bits followed by a single 1 and zeros up to
  the next multiple of the divider when their number is not a multiple of the divider, and
  returns them unchanged when it is (the guard \<^verbatim>\<open>overage.length !== divider\<close>): the result's
  length is always a multiple of the divider, and no block is added to aligned bits.
\<close>

theorem augmentBits_padding:
  "augmentBits bs divider =
     (if length bs mod divider_value divider = 0 then bs
      else bs @ True # replicate (divider_value divider - length bs mod divider_value divider - 1) False)
   \<and> length (augmentBits bs divider) mod divider_value divider = 0
   \<and> length (augmentBits bs divider) < length bs + divider_value divider"
proof -
  let ?d = "divider_value divider"
  let ?m = "length bs mod ?d"
  have d: "0 < ?d" by (cases divider) simp_all
  have m: "?m < ?d" using d by simp
  have "(length bs + (?d - ?m)) mod ?d = 0"
  proof -
    have "length bs = length bs div ?d * ?d + ?m" by simp
    then have "length bs + (?d - ?m) = (length bs div ?d + 1) * ?d"
      using m by (metis add.assoc add_mult_distrib le_add_diff_inverse less_imp_le_nat
          mult_1)
    then show ?thesis by simp
  qed
  moreover have "?m \<noteq> 0 \<Longrightarrow> Suc (?d - ?m - 1) = ?d - ?m" using m by simp
  ultimately show ?thesis
    using m by (auto simp add: augmentBits_eq)
qed

text \<open>
  C2, the claim as stated fails: eight bits, already a multiple of the divider 8, come
  back as the same eight bits, not as sixteen.
\<close>

theorem augmentBits_aligned_counterexample:
  "augmentBits [False, False, False, False, False, False, False, False] Eight =
     [False, False, False, False, False, False, False, False]
   \<and> length (augmentBits [False, False, False, False, False, False, False, False] Eight) \<noteq>
       length [False, False, False, False, False, False, False, False] + divider_value Eight"
  by (simp add: augmentBits_def)

text \<open>
  C1, as amended. For bits whose number is not a multiple of the divider,
  \<open>rollbackBits\<close> undoes \<open>augmentBits\<close>.
\<close>

theorem rollbackBits_augmentBits:
  assumes "length bs mod divider_value divider \<noteq> 0"
  shows "rollbackBits (augmentBits bs divider) = Inr bs"
proof -
  let ?d = "divider_value divider"
  have "?d \<le> 8" by (cases divider) simp_all
  moreover have "0 < length bs mod ?d" using assms by simp
  ultimately have "?d - length bs mod ?d - 1 < 7" by linarith
  then show ?thesis
    using assms by (simp add: augmentBits_eq rollbackBits_padded)
qed

theorem rollbackBits_augmentBits_witness:
  "length [True, False, True] mod divider_value Eight \<noteq> 0
   \<and> augmentBits [True, False, True] Eight = [True, False, True, True, False, False, False, False]
   \<and> rollbackBits (augmentBits [True, False, True] Eight) = Inr [True, False, True]"
proof -
  have r: "replicate 4 False = [False, False, False, False]"
    by code_simp
  show ?thesis
    using rollbackBits_augmentBits [of "[True, False, True]" Eight]
    by (simp add: augmentBits_eq r)
qed

text \<open>
  C1, the claim as stated fails on aligned bits, which \<open>augmentBits\<close> leaves alone:
  four bits ending in 1 lose that bit, and eight zero bits are rejected.
\<close>

theorem rollbackBits_augmentBits_counterexample:
  "rollbackBits (augmentBits [False, False, False, True] Four) = Inr [False, False, False]
   \<and> rollbackBits (augmentBits [False, False, False, True] Four) \<noteq> Inr [False, False, False, True]
   \<and> rollbackBits (augmentBits [False, False, False, False, False, False, False, False] Eight) =
       Inl MalformedPadding"
  by (simp add: augmentBits_def rollbackBits_def)

end
